theory Spec2Isabelle
  imports Complex_Main
begin

section \<open>Python values\<close>

text \<open>
  The program (\<^verbatim>\<open>server.py\<close>) works on the values that \<^verbatim>\<open>json.load\<close> produces and on
  the nested dictionaries it assembles from a form submission. A Python \<^verbatim>\<open>float\<close> is
  denoted by the exact rational value of the double (the sign of zero is not tracked), or
  by one of the three special values. A \<^verbatim>\<open>dict\<close> is an association list in insertion
  order; \<^verbatim>\<open>None\<close> is \<open>JNull\<close>.
\<close>

datatype pyfloat = Finite rat | PosInf | NegInf | NaN

datatype json =
    JNull
  | JBool bool
  | JInt int
  | JFloat pyfloat
  | JStr string
  | JArr "json list"
  | JObj "(string \<times> json) list"

text \<open>
  The exceptions that leave the modelled functions. \<open>RecursionError\<close> is what the
  interpreter raises when the call depth exceeds its limit; the limit is the fuel of
  \<open>resolve_schema_refs\<close> below.
\<close>

datatype py_error =
  RecursionError | AttributeError | TypeError | KeyError | IndexError | RegexError | OSError
  | UnicodeDecodeError | ValueError

text \<open>Truth value of an object, as \<^verbatim>\<open>if x:\<close> tests it.\<close>

fun truthy :: "json \<Rightarrow> bool" where
  "truthy JNull = False"
| "truthy (JBool b) = b"
| "truthy (JInt i) = (i \<noteq> 0)"
| "truthy (JFloat f) = (f \<noteq> Finite 0)"
| "truthy (JStr s) = (s \<noteq> [])"
| "truthy (JArr xs) = (xs \<noteq> [])"
| "truthy (JObj kvs) = (kvs \<noteq> [])"

text \<open>\<^verbatim>\<open>d[k] = v\<close>: an existing key keeps its position, a new key goes to the end.\<close>

fun dict_set :: "(string \<times> json) list \<Rightarrow> string \<Rightarrow> json \<Rightarrow> (string \<times> json) list" where
  "dict_set [] k v = [(k, v)]"
| "dict_set ((k', v') # kvs) k v =
     (if k' = k then (k, v) # kvs else (k', v') # dict_set kvs k v)"

text \<open>\<^verbatim>\<open>s.split(c)\<close> for a separator of one character.\<close>

fun split_on :: "char \<Rightarrow> string \<Rightarrow> string list" where
  "split_on c [] = [[]]"
| "split_on c (x # xs) =
     (if x = c then [] # split_on c xs
      else (case split_on c xs of [] \<Rightarrow> [[x]] | p # ps \<Rightarrow> (x # p) # ps))"

section \<open>Reference resolution\<close>

text \<open>
  The loop of \<^verbatim>\<open>resolve_ref\<close> over the pointer's segments. A failed lookup returns
  \<^verbatim>\<open>None\<close>, which is the same value as a JSON \<^verbatim>\<open>null\<close> referent. (The warning it prints
  is not part of the model.)
\<close>

fun walk_parts :: "string list \<Rightarrow> json \<Rightarrow> json" where
  "walk_parts [] current = current"
| "walk_parts (part # parts) (JObj kvs) =
     (case map_of kvs part of
        Some v \<Rightarrow> walk_parts parts v
      | None \<Rightarrow> JNull)"
| "walk_parts (part # parts) current = JNull"

text \<open>
  \<^verbatim>\<open>resolve_ref(ref_path, schema)\<close>. The value under \<^verbatim>\<open>$ref\<close> is whatever the document
  holds; \<^verbatim>\<open>ref_path.startswith\<close> exists on strings only.
\<close>

fun resolve_ref :: "json \<Rightarrow> json \<Rightarrow> py_error + json" where
  "resolve_ref (JStr ref_path) schema =
     (if take 2 ref_path = ''#/''
      then Inr (walk_parts (split_on CHR ''/'' (drop 2 ref_path)) schema)
      else Inr JNull)"
| "resolve_ref other schema = Inl AttributeError"

text \<open>The list comprehension and the dictionary loop of \<^verbatim>\<open>resolve_schema_refs\<close>.\<close>

fun resolve_list :: "(json \<Rightarrow> py_error + json) \<Rightarrow> json list \<Rightarrow> py_error + json list" where
  "resolve_list f [] = Inr []"
| "resolve_list f (item # items) =
     (case f item of
        Inl e \<Rightarrow> Inl e
      | Inr y \<Rightarrow> (case resolve_list f items of Inl e \<Rightarrow> Inl e | Inr ys \<Rightarrow> Inr (y # ys)))"

fun resolve_items ::
  "(json \<Rightarrow> py_error + json) \<Rightarrow> (string \<times> json) list \<Rightarrow> (string \<times> json) list
     \<Rightarrow> py_error + (string \<times> json) list" where
  "resolve_items f [] result = Inr result"
| "resolve_items f ((key, v) # items) result =
     (case f v of
        Inl e \<Rightarrow> Inl e
      | Inr v' \<Rightarrow> resolve_items f items (dict_set result key v'))"

text \<open>
  \<^verbatim>\<open>resolve_schema_refs(schema_part, full_schema)\<close>. The first argument is the call depth
  still available: every nested call uses one level, and at depth 0 the interpreter raises
  \<^verbatim>\<open>RecursionError\<close>. The source has no other bound on the recursion.
\<close>

fun resolve_schema_refs :: "nat \<Rightarrow> json \<Rightarrow> json \<Rightarrow> py_error + json" where
  "resolve_schema_refs 0 schema_part full_schema = Inl RecursionError"
| "resolve_schema_refs (Suc n) (JObj kvs) full_schema =
     (case map_of kvs ''$ref'' of
        Some r \<Rightarrow>
          (case resolve_ref r full_schema of
             Inl e \<Rightarrow> Inl e
           | Inr resolved \<Rightarrow>
               if truthy resolved then resolve_schema_refs n resolved full_schema
               else Inr (JObj kvs))
      | None \<Rightarrow>
          (case resolve_items (\<lambda>v. resolve_schema_refs n v full_schema) kvs [] of
             Inl e \<Rightarrow> Inl e
           | Inr result \<Rightarrow> Inr (JObj result)))"
| "resolve_schema_refs (Suc n) (JArr items) full_schema =
     (case resolve_list (\<lambda>item. resolve_schema_refs n item full_schema) items of
        Inl e \<Rightarrow> Inl e
      | Inr ys \<Rightarrow> Inr (JArr ys))"
| "resolve_schema_refs (Suc n) schema_part full_schema = Inr schema_part"

text \<open>
  Documents on which the recursion above is well-founded: following a \<^verbatim>\<open>$ref\<close> never
  comes back to a node that is still being resolved. Every entry of a list or dictionary
  has to be so, and the referent of every \<^verbatim>\<open>$ref\<close> that is followed.
\<close>

inductive acyclic_refs :: "json \<Rightarrow> json \<Rightarrow> bool" where
  plain: "(\<And>kvs. part \<noteq> JObj kvs) \<Longrightarrow> (\<And>items. part \<noteq> JArr items) \<Longrightarrow> acyclic_refs part full"
| array: "(\<forall>item \<in> set items. acyclic_refs item full) \<Longrightarrow> acyclic_refs (JArr items) full"
| object: "map_of kvs ''$ref'' = None \<Longrightarrow> (\<forall>v \<in> snd ` set kvs. acyclic_refs v full)
     \<Longrightarrow> acyclic_refs (JObj kvs) full"
| ref_raises: "map_of kvs ''$ref'' = Some r \<Longrightarrow> resolve_ref r full = Inl e
     \<Longrightarrow> acyclic_refs (JObj kvs) full"
| ref_kept: "map_of kvs ''$ref'' = Some r \<Longrightarrow> resolve_ref r full = Inr t \<Longrightarrow> \<not> truthy t
     \<Longrightarrow> acyclic_refs (JObj kvs) full"
| ref_followed: "map_of kvs ''$ref'' = Some r \<Longrightarrow> resolve_ref r full = Inr t \<Longrightarrow> truthy t
     \<Longrightarrow> acyclic_refs t full \<Longrightarrow> acyclic_refs (JObj kvs) full"

text \<open>
  A pointer that cannot be resolved: it does not start with \<^verbatim>\<open>#/\<close>, or some segment is
  looked up in a value that is not a dictionary or that lacks the key.
\<close>

fun lookup_fails :: "string list \<Rightarrow> json \<Rightarrow> bool" where
  "lookup_fails [] current = False"
| "lookup_fails (part # parts) (JObj kvs) =
     (case map_of kvs part of Some v \<Rightarrow> lookup_fails parts v | None \<Rightarrow> True)"
| "lookup_fails (part # parts) current = True"


text \<open>A document in which \<^verbatim>\<open>A\<close> refers to \<^verbatim>\<open>B\<close> and \<^verbatim>\<open>B\<close> to \<^verbatim>\<open>A\<close>.\<close>

definition cyclic_doc :: json where
  "cyclic_doc =
     JObj [(''A'', JObj [(''$ref'', JStr ''#/B'')]), (''B'', JObj [(''$ref'', JStr ''#/A'')])]"

text \<open>A document with a chain of references that ends: \<^verbatim>\<open>a\<close> to \<^verbatim>\<open>X\<close> to \<^verbatim>\<open>Y\<close>.\<close>

definition chain_doc :: json where
  "chain_doc =
     JObj [(''$defs'', JObj [(''X'', JObj [(''$ref'', JStr ''#/$defs/Y'')]),
                             (''Y'', JObj [(''type'', JStr ''string'')])]),
           (''properties'', JObj [(''a'', JObj [(''$ref'', JStr ''#/$defs/X'')])])]"


text \<open>A document whose property \<^verbatim>\<open>p\<close> points at a definition that is the empty object.\<close>

definition empty_target_doc :: json where
  "empty_target_doc =
     JObj [(''$defs'', JObj [(''E'', JObj [])]),
           (''properties'', JObj [(''p'', JObj [(''$ref'', JStr ''#/$defs/E'')])])]"

section \<open>Loading the schema\<close>

text \<open>
  \<^verbatim>\<open>load_schema()\<close> opens \<^verbatim>\<open>schema.json\<close> and hands it to \<^verbatim>\<open>json.load\<close>. The file is absent, or
  cannot be opened (an \<^verbatim>\<open>OSError\<close> other than \<^verbatim>\<open>FileNotFoundError\<close>), or has contents, a
  sequence of bytes. \<^verbatim>\<open>json.load\<close>, which reads, decodes and parses the contents, is a
  parameter. It gives the document, or raises \<^verbatim>\<open>JSONDecodeError\<close> with a message, or raises
  another exception: \<^verbatim>\<open>UnicodeDecodeError\<close> on bytes that are not UTF-8, \<^verbatim>\<open>RecursionError\<close> on
  brackets nested too deeply, \<^verbatim>\<open>ValueError\<close> on an integer of too many digits. The function
  has an \<^verbatim>\<open>except\<close> clause for \<^verbatim>\<open>FileNotFoundError\<close> and one for \<^verbatim>\<open>JSONDecodeError\<close>; every
  other exception leaves it. The result is the value returned together with the lines
  printed.
\<close>

datatype schema_file = NotFound | Unreadable | Contents string

datatype load_outcome = Loaded json | JSONDecodeError string | OtherError py_error

definition load_schema ::
  "(string \<Rightarrow> load_outcome) \<Rightarrow> schema_file \<Rightarrow> py_error + json \<times> string list" where
  "load_schema json_load file =
     (case file of
        NotFound \<Rightarrow> Inr (JObj [], [''ERROR: schema.json file not found!''])
      | Unreadable \<Rightarrow> Inl OSError
      | Contents bytes \<Rightarrow>
          (case json_load bytes of
             Loaded doc \<Rightarrow> Inr (doc, [])
           | JSONDecodeError e \<Rightarrow> Inr (JObj [], [''ERROR: Invalid JSON in schema.json: '' @ e])
           | OtherError err \<Rightarrow> Inl err))"

section \<open>Assembling the nested submission\<close>

text \<open>
  The nested data that \<^verbatim>\<open>parse_nested_form_data\<close> builds from the flat form fields: string
  leaves and dictionaries, nothing else.
\<close>

datatype form_value = Leaf string | Node "(string \<times> form_value) list"

fun form_set ::
  "(string \<times> form_value) list \<Rightarrow> string \<Rightarrow> form_value \<Rightarrow> (string \<times> form_value) list" where
  "form_set [] k v = [(k, v)]"
| "form_set ((k', v') # kvs) k v =
     (if k' = k then (k, v) # kvs else (k', v') # form_set kvs k v)"

text \<open>
  The body of the \<^verbatim>\<open>if '.' in key\<close> branch: the walk over \<^verbatim>\<open>parts[:-1]\<close> with the pointer
  \<^verbatim>\<open>current\<close>, then the assignment of the final key. The dictionaries are updated in place
  in the source; every one of them is reachable from \<^verbatim>\<open>nested_data\<close> along one path only, so
  the update is the update of that path. Once \<^verbatim>\<open>current\<close> is a string, the next statement
  that uses it (\<^verbatim>\<open>current[part] = {}\<close>, \<^verbatim>\<open>current[part]\<close> or \<^verbatim>\<open>current[final_key] = value\<close>)
  raises \<^verbatim>\<open>TypeError\<close>. (\<^verbatim>\<open>split\<close> gives no empty list; on one, \<^verbatim>\<open>parts[-1]\<close> is an
  \<^verbatim>\<open>IndexError\<close>.)
\<close>

fun set_nested ::
  "string list \<Rightarrow> string \<Rightarrow> (string \<times> form_value) list
     \<Rightarrow> py_error + (string \<times> form_value) list" where
  "set_nested [] v current = Inl IndexError"
| "set_nested [final_key] v current = Inr (form_set current final_key (Leaf v))"
| "set_nested (part # parts) v current =
     (case map_of current part of
        None \<Rightarrow>
          (case set_nested parts v [] of
             Inl e \<Rightarrow> Inl e
           | Inr sub \<Rightarrow> Inr (form_set current part (Node sub)))
      | Some (Node sub) \<Rightarrow>
          (case set_nested parts v sub of
             Inl e \<Rightarrow> Inl e
           | Inr sub' \<Rightarrow> Inr (form_set current part (Node sub')))
      | Some (Leaf s) \<Rightarrow> Inl TypeError)"

fun parse_loop ::
  "(string \<times> string) list \<Rightarrow> (string \<times> form_value) list
     \<Rightarrow> py_error + (string \<times> form_value) list" where
  "parse_loop [] nested_data = Inr nested_data"
| "parse_loop ((key, v) # rest) nested_data =
     (if CHR ''.'' \<in> set key
      then (case set_nested (split_on CHR ''.'' key) v nested_data of
              Inl e \<Rightarrow> Inl e
            | Inr nested_data' \<Rightarrow> parse_loop rest nested_data')
      else parse_loop rest (form_set nested_data key (Leaf v)))"

definition parse_nested_form_data ::
  "(string \<times> string) list \<Rightarrow> py_error + (string \<times> form_value) list" where
  "parse_nested_form_data flat_data = parse_loop flat_data []"

text \<open>
  The assembly as the specification words it: a key without a dot is set as a top-level
  leaf; a dotted key is split, every segment but the last is descended into (an absent one
  is created as an empty map, and a leaf in the way is overwritten by a map), and the last
  segment is set as a leaf.
\<close>

fun assemble_key ::
  "string list \<Rightarrow> string \<Rightarrow> (string \<times> form_value) list \<Rightarrow> (string \<times> form_value) list" where
  "assemble_key [] v level = level"
| "assemble_key [seg] v level = form_set level seg (Leaf v)"
| "assemble_key (seg # segs) v level =
     form_set level seg
       (Node (assemble_key segs v
          (case map_of level seg of Some (Node sub) \<Rightarrow> sub | _ \<Rightarrow> [])))"

fun assemble_step ::
  "string \<times> string \<Rightarrow> (string \<times> form_value) list \<Rightarrow> (string \<times> form_value) list" where
  "assemble_step (key, v) tree =
     (if CHR ''.'' \<in> set key then assemble_key (split_on CHR ''.'' key) v tree
      else form_set tree key (Leaf v))"

definition assemble :: "(string \<times> string) list \<Rightarrow> (string \<times> form_value) list" where
  "assemble flat = fold assemble_step flat []"

text \<open>
  Two keys collide when the segments of one are a proper beginning of the segments of the
  other: one of them puts a leaf where the other needs a map.
\<close>

fun proper_prefix :: "'a list \<Rightarrow> 'a list \<Rightarrow> bool" where
  "proper_prefix [] ys = (ys \<noteq> [])"
| "proper_prefix (x # xs) [] = False"
| "proper_prefix (x # xs) (y # ys) = (x = y \<and> proper_prefix xs ys)"

definition collision_free :: "(string \<times> string) list \<Rightarrow> bool" where
  "collision_free flat \<longleftrightarrow>
     (\<forall>k1 \<in> fst ` set flat. \<forall>k2 \<in> fst ` set flat.
        \<not> proper_prefix (split_on CHR ''.'' k1) (split_on CHR ''.'' k2))"

text \<open>The value at a path of the tree is a leaf.\<close>

fun leaf_at :: "string list \<Rightarrow> (string \<times> form_value) list \<Rightarrow> bool" where
  "leaf_at [] tree = False"
| "leaf_at (seg # path) tree =
     (case map_of tree seg of
        None \<Rightarrow> False
      | Some (Leaf s) \<Rightarrow> path = []
      | Some (Node sub) \<Rightarrow> leaf_at path sub)"

section \<open>Validation\<close>

subsection \<open>The interpreter's part\<close>

text \<open>
  What the validator takes from the Python runtime and its library, and what this theory
  does not define: the parsing of a string by \<^verbatim>\<open>int\<close> and by \<^verbatim>\<open>float\<close> (\<open>None\<close> when they
  raise \<^verbatim>\<open>ValueError\<close>), \<^verbatim>\<open>str\<close> of a float or of a container, and the regular-expression
  engine. \<open>re_compile\<close> gives, for a pattern that compiles, the function of
  \<^verbatim>\<open>re.compile(pattern).match\<close>: for a subject string, the end of a match that begins at
  position 0, or \<open>None\<close> when there is no match beginning there; a pattern that does not
  compile gives \<open>None\<close>.
\<close>

record runtime =
  py_int :: "string \<Rightarrow> int option"
  py_float :: "string \<Rightarrow> pyfloat option"
  str_other :: "json \<Rightarrow> string"
  re_compile :: "string \<Rightarrow> (string \<Rightarrow> nat option) option"

fun py_bind :: "py_error + 'a \<Rightarrow> ('a \<Rightarrow> py_error + 'b) \<Rightarrow> py_error + 'b" where
  "py_bind (Inl e) f = Inl e"
| "py_bind (Inr x) f = f x"

text \<open>\<^verbatim>\<open>str\<close> of an integer.\<close>

fun show_nat :: "nat \<Rightarrow> string" where
  "show_nat n =
     (if n < 10 then [''0123456789'' ! n]
      else show_nat (n div 10) @ [''0123456789'' ! (n mod 10)])"

definition show_int :: "int \<Rightarrow> string" where
  "show_int i = (if i < 0 then CHR ''-'' # show_nat (nat (- i)) else show_nat (nat i))"

text \<open>The text that an f-string puts for a value.\<close>

fun py_str :: "runtime \<Rightarrow> json \<Rightarrow> string" where
  "py_str rt (JStr s) = s"
| "py_str rt (JInt i) = show_int i"
| "py_str rt (JBool b) = (if b then ''True'' else ''False'')"
| "py_str rt JNull = ''None''"
| "py_str rt other = str_other rt other"

text \<open>Numbers, and their order. Python compares an integer with a float exactly.\<close>

datatype pynum = PInt int | PFloat pyfloat

fun as_num :: "json \<Rightarrow> pynum option" where
  "as_num (JInt i) = Some (PInt i)"
| "as_num (JFloat f) = Some (PFloat f)"
| "as_num (JBool b) = Some (PInt (if b then 1 else 0))"
| "as_num other = None"

fun float_lt :: "pyfloat \<Rightarrow> pyfloat \<Rightarrow> bool" where
  "float_lt NaN y = False"
| "float_lt x NaN = False"
| "float_lt (Finite a) (Finite b) = (a < b)"
| "float_lt (Finite a) PosInf = True"
| "float_lt (Finite a) NegInf = False"
| "float_lt NegInf NegInf = False"
| "float_lt NegInf y = True"
| "float_lt PosInf y = False"

fun to_float :: "pynum \<Rightarrow> pyfloat" where
  "to_float (PInt i) = Finite (of_int i)"
| "to_float (PFloat f) = f"

fun num_lt :: "pynum \<Rightarrow> pynum \<Rightarrow> bool" where
  "num_lt (PInt a) (PInt b) = (a < b)"
| "num_lt x y = float_lt (to_float x) (to_float y)"

text \<open>\<^verbatim>\<open>x < bound\<close> and \<^verbatim>\<open>x > bound\<close> for a number \<^verbatim>\<open>x\<close> and a value of the schema.\<close>

definition less_than :: "pynum \<Rightarrow> json \<Rightarrow> py_error + bool" where
  "less_than x bound = (case as_num bound of None \<Rightarrow> Inl TypeError | Some b \<Rightarrow> Inr (num_lt x b))"

definition greater_than :: "pynum \<Rightarrow> json \<Rightarrow> py_error + bool" where
  "greater_than x bound =
     (case as_num bound of None \<Rightarrow> Inl TypeError | Some b \<Rightarrow> Inr (num_lt b x))"

text \<open>\<^verbatim>\<open>d.get(key, default)\<close>; only a dictionary has the method.\<close>

fun py_get :: "json \<Rightarrow> string \<Rightarrow> json \<Rightarrow> py_error + json" where
  "py_get (JObj kvs) key dflt = Inr (case map_of kvs key of Some v \<Rightarrow> v | None \<Rightarrow> dflt)"
| "py_get other key dflt = Inl AttributeError"

text \<open>The items that a \<^verbatim>\<open>for\<close> loop (or \<^verbatim>\<open>join\<close>) draws from a value of the schema.\<close>

fun py_iter :: "json \<Rightarrow> py_error + json list" where
  "py_iter (JArr items) = Inr items"
| "py_iter (JObj kvs) = Inr (map (\<lambda>(k, v). JStr k) kvs)"
| "py_iter (JStr s) = Inr (map (\<lambda>c. JStr [c]) s)"
| "py_iter other = Inl TypeError"

text \<open>\<^verbatim>\<open>t in s\<close> for two strings.\<close>

fun contains_str :: "string \<Rightarrow> string \<Rightarrow> bool" where
  "contains_str t [] = (t = [])"
| "contains_str t (c # s) = (take (length t) (c # s) = t \<or> contains_str t s)"

text \<open>\<^verbatim>\<open>field_name in properties\<close>, the left operand a string.\<close>

fun key_in :: "string \<Rightarrow> json \<Rightarrow> py_error + bool" where
  "key_in k (JObj kvs) = Inr (map_of kvs k \<noteq> None)"
| "key_in k (JArr items) = Inr (JStr k \<in> set items)"
| "key_in k (JStr s) = Inr (contains_str k s)"
| "key_in k other = Inl TypeError"

text \<open>\<^verbatim>\<open>properties[field_name]\<close>, the subscript a string.\<close>

fun subscript :: "json \<Rightarrow> string \<Rightarrow> py_error + json" where
  "subscript (JObj kvs) k = (case map_of kvs k of Some v \<Rightarrow> Inr v | None \<Rightarrow> Inl KeyError)"
| "subscript other k = Inl TypeError"

text \<open>
  \<^verbatim>\<open>value == x\<close> for a value of the submission and a value of the schema. Two dictionaries
  are equal when they have the same keys with equal values, in any order.
\<close>

fun form_eq :: "form_value \<Rightarrow> json \<Rightarrow> bool"
  and form_eq_items :: "(string \<times> form_value) list \<Rightarrow> (string \<times> json) list \<Rightarrow> bool" where
  "form_eq (Leaf s) j = (j = JStr s)"
| "form_eq (Node kvs) (JObj jkvs) = (length kvs = length jkvs \<and> form_eq_items kvs jkvs)"
| "form_eq (Node kvs) j = False"
| "form_eq_items [] jkvs = True"
| "form_eq_items ((k, v) # rest) jkvs =
     ((case map_of jkvs k of None \<Rightarrow> False | Some j \<Rightarrow> form_eq v j) \<and> form_eq_items rest jkvs)"

text \<open>\<^verbatim>\<open>value in enum\<close>. A dictionary cannot be hashed, nor be looked for in a string.\<close>

fun value_in :: "form_value \<Rightarrow> json \<Rightarrow> py_error + bool" where
  "value_in v (JArr items) = Inr (\<exists>item \<in> set items. form_eq v item)"
| "value_in (Leaf s) (JObj kvs) = Inr (map_of kvs s \<noteq> None)"
| "value_in (Leaf s) (JStr t) = Inr (contains_str s t)"
| "value_in v other = Inl TypeError"

text \<open>\<^verbatim>\<open>len(value)\<close> and the truth value of a value of the submission.\<close>

fun form_len :: "form_value \<Rightarrow> nat" where
  "form_len (Leaf s) = length s"
| "form_len (Node kvs) = length kvs"

fun form_truthy :: "form_value \<Rightarrow> bool" where
  "form_truthy (Leaf s) = (s \<noteq> [])"
| "form_truthy (Node kvs) = (kvs \<noteq> [])"

text \<open>\<^verbatim>\<open>sep.join(items)\<close>: every item has to be a string.\<close>

fun join_strs :: "string \<Rightarrow> json list \<Rightarrow> py_error + string" where
  "join_strs sep [] = Inr []"
| "join_strs sep [JStr s] = Inr s"
| "join_strs sep (JStr s # items) = py_bind (join_strs sep items) (\<lambda>r. Inr (s @ sep @ r))"
| "join_strs sep (other # items) = Inl TypeError"

text \<open>
  \<^verbatim>\<open>re.match(pattern, value)\<close>: the pattern is compiled first (a pattern that is not a string
  is a \<^verbatim>\<open>TypeError\<close>), then matched at the beginning of the subject, which has to be a
  string. The result is the match (its end) or \<open>None\<close>.
\<close>

fun re_match :: "runtime \<Rightarrow> json \<Rightarrow> form_value \<Rightarrow> py_error + nat option" where
  "re_match rt (JStr pattern) v =
     (case re_compile rt pattern of
        None \<Rightarrow> Inl RegexError
      | Some matcher \<Rightarrow> (case v of Leaf s \<Rightarrow> Inr (matcher s) | Node kvs \<Rightarrow> Inl TypeError))"
| "re_match rt other v = Inl TypeError"

subsection \<open>The checks of one field\<close>

text \<open>The quotation mark that the messages put around a field name.\<close>

definition quoted :: "string \<Rightarrow> string" where
  "quoted name = CHR 0x27 # name @ [CHR 0x27]"

text \<open>The pattern of the e-mail check, \<^verbatim>\<open>^[a-zA-Z0-9._%+-]+@[a-zA-Z0-9.-]+\.[a-zA-Z]{2,}$\<close>.\<close>

definition email_pattern :: string where
  "email_pattern = ''^[a-zA-Z0-9._%+-]+@[a-zA-Z0-9.-]+'' @ [CHR 0x5C] @ ''.[a-zA-Z]{2,}$''"

text \<open>
  The statements of \<^verbatim>\<open>validate_field_value\<close> for a field of type string, one definition for
  each \<^verbatim>\<open>if\<close>; each gives the messages it appends. The field's schema is a dictionary here.
\<close>

definition check_min_length ::
  "runtime \<Rightarrow> string \<Rightarrow> form_value \<Rightarrow> (string \<times> json) list \<Rightarrow> py_error + string list" where
  "check_min_length rt field_name v field_schema =
     (case map_of field_schema ''minLength'' of
        None \<Rightarrow> Inr []
      | Some bound \<Rightarrow>
          py_bind (less_than (PInt (int (form_len v))) bound) (\<lambda>short.
            Inr (if short
                 then [quoted field_name @ '' must be at least '' @ py_str rt bound @ '' characters'']
                 else [])))"

definition check_max_length ::
  "runtime \<Rightarrow> string \<Rightarrow> form_value \<Rightarrow> (string \<times> json) list \<Rightarrow> py_error + string list" where
  "check_max_length rt field_name v field_schema =
     (case map_of field_schema ''maxLength'' of
        None \<Rightarrow> Inr []
      | Some bound \<Rightarrow>
          py_bind (greater_than (PInt (int (form_len v))) bound) (\<lambda>long.
            Inr (if long
                 then [quoted field_name @ '' must be at most '' @ py_str rt bound @ '' characters'']
                 else [])))"

definition check_pattern ::
  "runtime \<Rightarrow> string \<Rightarrow> form_value \<Rightarrow> (string \<times> json) list \<Rightarrow> py_error + string list" where
  "check_pattern rt field_name v field_schema =
     (case map_of field_schema ''pattern'' of
        None \<Rightarrow> Inr []
      | Some pattern \<Rightarrow>
          py_bind (re_match rt pattern v) (\<lambda>m.
            Inr (if m = None
                 then [quoted field_name @ '' does not match required pattern'']
                 else [])))"

definition check_enum ::
  "runtime \<Rightarrow> string \<Rightarrow> form_value \<Rightarrow> (string \<times> json) list \<Rightarrow> py_error + string list" where
  "check_enum rt field_name v field_schema =
     (case map_of field_schema ''enum'' of
        None \<Rightarrow> Inr []
      | Some enum \<Rightarrow>
          py_bind (value_in v enum) (\<lambda>found.
            if found then Inr []
            else py_bind (py_iter enum) (\<lambda>items.
                 py_bind (join_strs '', '' items) (\<lambda>allowed.
                   Inr [quoted field_name @ '' must be one of: '' @ allowed]))))"

definition check_format ::
  "runtime \<Rightarrow> string \<Rightarrow> form_value \<Rightarrow> (string \<times> json) list \<Rightarrow> py_error + string list" where
  "check_format rt field_name v field_schema =
     (if map_of field_schema ''format'' = Some (JStr ''email'')
      then py_bind (re_match rt (JStr email_pattern) v) (\<lambda>m.
             Inr (if m = None then [quoted field_name @ '' must be a valid email''] else []))
      else Inr [])"

text \<open>
  The \<^verbatim>\<open>try\<close> block of the numeric branch. \<^verbatim>\<open>int(value)\<close> and \<^verbatim>\<open>float(value)\<close> raise
  \<^verbatim>\<open>ValueError\<close> for a string they cannot parse, which the \<^verbatim>\<open>except\<close> clause turns into a
  message, and \<^verbatim>\<open>TypeError\<close> for a dictionary, which no clause catches.
\<close>

definition coerce :: "runtime \<Rightarrow> string \<Rightarrow> string \<Rightarrow> pynum option" where
  "coerce rt field_type s =
     (if field_type = ''integer'' then map_option PInt (py_int rt s)
      else map_option PFloat (py_float rt s))"

definition check_numeric ::
  "runtime \<Rightarrow> string \<Rightarrow> form_value \<Rightarrow> string \<Rightarrow> (string \<times> json) list
     \<Rightarrow> py_error + string list" where
  "check_numeric rt field_name v field_type field_schema =
     (case v of
        Node kvs \<Rightarrow> Inl TypeError
      | Leaf s \<Rightarrow>
          (case coerce rt field_type s of
             None \<Rightarrow> Inr [quoted field_name @ '' must be a valid '' @ field_type]
           | Some num_value \<Rightarrow>
               py_bind
                 (case map_of field_schema ''minimum'' of
                    None \<Rightarrow> Inr []
                  | Some bound \<Rightarrow>
                      py_bind (less_than num_value bound) (\<lambda>below.
                        Inr (if below
                             then [quoted field_name @ '' must be at least '' @ py_str rt bound]
                             else [])))
                 (\<lambda>errors1.
               py_bind
                 (case map_of field_schema ''maximum'' of
                    None \<Rightarrow> Inr []
                  | Some bound \<Rightarrow>
                      py_bind (greater_than num_value bound) (\<lambda>above.
                        Inr (if above
                             then [quoted field_name @ '' must be at most '' @ py_str rt bound]
                             else [])))
                 (\<lambda>errors2. Inr (errors1 @ errors2)))))"

text \<open>\<^verbatim>\<open>validate_field_value(field_name, value, field_schema)\<close>.\<close>

fun validate_field_value ::
  "runtime \<Rightarrow> string \<Rightarrow> form_value \<Rightarrow> json \<Rightarrow> py_error + string list" where
  "validate_field_value rt field_name v (JObj field_schema) =
     (let field_type = (case map_of field_schema ''type'' of Some t \<Rightarrow> t | None \<Rightarrow> JStr ''string'')
      in if field_type = JStr ''string'' then
           py_bind (check_min_length rt field_name v field_schema) (\<lambda>errors1.
           py_bind (check_max_length rt field_name v field_schema) (\<lambda>errors2.
           py_bind (check_pattern rt field_name v field_schema) (\<lambda>errors3.
           py_bind (check_enum rt field_name v field_schema) (\<lambda>errors4.
           py_bind (check_format rt field_name v field_schema) (\<lambda>errors5.
             Inr (errors1 @ errors2 @ errors3 @ errors4 @ errors5))))))
         else if field_type = JStr ''integer'' then
           check_numeric rt field_name v ''integer'' field_schema
         else if field_type = JStr ''number'' then
           check_numeric rt field_name v ''number'' field_schema
         else Inr [])"
| "validate_field_value rt field_name v other = Inl AttributeError"

subsection \<open>The two passes\<close>

text \<open>
  The test of the first loop, \<^verbatim>\<open>field not in data or data[field] == ''\<close>, for an item of
  \<^verbatim>\<open>required\<close>. A list or a dictionary cannot be looked up in \<^verbatim>\<open>data\<close>; a number, a truth
  value or \<^verbatim>\<open>None\<close> can, and is never among its keys.
\<close>

fun is_missing :: "(string \<times> form_value) list \<Rightarrow> json \<Rightarrow> py_error + bool" where
  "is_missing data (JStr field) =
     Inr (case map_of data field of None \<Rightarrow> True | Some v \<Rightarrow> v = Leaf [])"
| "is_missing data (JArr items) = Inl TypeError"
| "is_missing data (JObj kvs) = Inl TypeError"
| "is_missing data other = Inr True"

fun check_required ::
  "runtime \<Rightarrow> (string \<times> form_value) list \<Rightarrow> json list \<Rightarrow> py_error + string list" where
  "check_required rt data [] = Inr []"
| "check_required rt data (field # rest) =
     py_bind (is_missing data field) (\<lambda>missing.
     py_bind (check_required rt data rest) (\<lambda>errors.
       Inr ((if missing then [''Field '' @ quoted (py_str rt field) @ '' is required''] else [])
            @ errors)))"

text \<open>The body of the second loop, for one item of \<^verbatim>\<open>data\<close>, and the loop.\<close>

definition validate_item ::
  "nat \<Rightarrow> runtime \<Rightarrow> json \<Rightarrow> json \<Rightarrow> string \<Rightarrow> form_value \<Rightarrow> py_error + string list" where
  "validate_item n rt properties resolved_schema field_name v =
     py_bind (key_in field_name properties) (\<lambda>declared.
       if declared \<and> form_truthy v then
         py_bind (subscript properties field_name) (\<lambda>field_schema.
         py_bind (resolve_schema_refs n field_schema resolved_schema) (\<lambda>field_schema'.
           validate_field_value rt field_name v field_schema'))
       else Inr [])"

fun validate_fields ::
  "nat \<Rightarrow> runtime \<Rightarrow> json \<Rightarrow> json \<Rightarrow> (string \<times> form_value) list \<Rightarrow> py_error + string list" where
  "validate_fields n rt properties resolved_schema [] = Inr []"
| "validate_fields n rt properties resolved_schema ((field_name, v) # items) =
     py_bind (validate_item n rt properties resolved_schema field_name v) (\<lambda>field_errors.
     py_bind (validate_fields n rt properties resolved_schema items) (\<lambda>errors.
       Inr (field_errors @ errors)))"

text \<open>
  \<^verbatim>\<open>validate_against_schema(data, schema)\<close>; \<open>n\<close> is the call depth available to each of its
  calls of \<^verbatim>\<open>resolve_schema_refs\<close>.
\<close>

definition validate_against_schema ::
  "nat \<Rightarrow> runtime \<Rightarrow> (string \<times> form_value) list \<Rightarrow> json \<Rightarrow> py_error + string list" where
  "validate_against_schema n rt data schema =
     py_bind (resolve_schema_refs n schema schema) (\<lambda>resolved_schema.
     py_bind (py_get resolved_schema ''properties'' (JObj [])) (\<lambda>properties.
     py_bind (py_get resolved_schema ''required'' (JArr [])) (\<lambda>required.
     py_bind (py_iter required) (\<lambda>required_fields.
     py_bind (check_required rt data required_fields) (\<lambda>errors1.
     py_bind (validate_fields n rt properties resolved_schema data) (\<lambda>errors2.
       Inr (errors1 @ errors2)))))))"

subsection \<open>A runtime for the examples\<close>

text \<open>
  A small runtime on which the examples below are evaluated. It stands for the
  interpreter on the inputs of the examples only: \<^verbatim>\<open>int\<close> and \<^verbatim>\<open>float\<close> of a string of decimal
  digits with an optional sign (every other string is refused), patterns of letters and
  digits (which match themselves, at the beginning of the subject; every other pattern is
  refused), and for \<^verbatim>\<open>str\<close> the text of a float of integral value below \<^verbatim>\<open>1e16\<close> (\<^verbatim>\<open>10.0\<close>;
  an empty text for every other float and for a container).
\<close>

fun digits_value :: "string \<Rightarrow> nat \<Rightarrow> nat option" where
  "digits_value [] acc = Some acc"
| "digits_value (c # cs) acc =
     (if c \<in> set ''0123456789''
      then digits_value cs (10 * acc + (of_char c - 48))
      else None)"

definition sample_int :: "string \<Rightarrow> int option" where
  "sample_int s =
     (case s of
        [] \<Rightarrow> None
      | c # cs \<Rightarrow>
          if c = CHR ''-'' then
            (if cs = [] then None else map_option (\<lambda>n. - int n) (digits_value cs 0))
          else if c = CHR ''+'' then
            (if cs = [] then None else map_option int (digits_value cs 0))
          else map_option int (digits_value (c # cs) 0))"

definition sample_compile :: "string \<Rightarrow> (string \<Rightarrow> nat option) option" where
  "sample_compile pattern =
     (if set pattern \<subseteq> set ''abcdefghijklmnopqrstuvwxyzABCDEFGHIJKLMNOPQRSTUVWXYZ0123456789''
      then Some (\<lambda>s. if take (length pattern) s = pattern then Some (length pattern) else None)
      else None)"

fun sample_str_other :: "json \<Rightarrow> string" where
  "sample_str_other (JFloat (Finite q)) =
     (if of_int \<lfloor>q\<rfloor> = q \<and> \<bar>q\<bar> < 10 ^ 16 then show_int \<lfloor>q\<rfloor> @ ''.0'' else [])"
| "sample_str_other other = []"

definition sample_runtime :: runtime where
  "sample_runtime =
     \<lparr>py_int = sample_int,
      py_float = (\<lambda>s. map_option (\<lambda>i. Finite (of_int i)) (sample_int s)),
      str_other = sample_str_other,
      re_compile = sample_compile\<rparr>"

subsection \<open>Schemas and notions for the statements about validation\<close>

text \<open>
  The order of numbers, said without reference to the interpreter: the number that a bound
  of the schema denotes (a truth value counts as 1 or 0), and when one number lies strictly
  below another. Nothing lies below or above \<^verbatim>\<open>nan\<close>.
\<close>

fun bound_number :: "json \<Rightarrow> pyfloat option" where
  "bound_number (JInt i) = Some (Finite (of_int i))"
| "bound_number (JFloat f) = Some f"
| "bound_number (JBool b) = Some (Finite (if b then 1 else 0))"
| "bound_number other = None"

definition strictly_below :: "pyfloat \<Rightarrow> pyfloat \<Rightarrow> bool" where
  "strictly_below x y \<longleftrightarrow>
     x \<noteq> NaN \<and> y \<noteq> NaN \<and> x \<noteq> y
     \<and> (x = NegInf \<or> y = PosInf \<or> (\<exists>a b. x = Finite a \<and> y = Finite b \<and> a < b))"

text \<open>A value violates a minimum, or a maximum, that the schema gives.\<close>

definition violates_minimum :: "pyfloat \<Rightarrow> json \<Rightarrow> bool" where
  "violates_minimum x bound \<longleftrightarrow> (\<exists>q. bound_number bound = Some q \<and> strictly_below x q)"

definition violates_maximum :: "pyfloat \<Rightarrow> json \<Rightarrow> bool" where
  "violates_maximum x bound \<longleftrightarrow> (\<exists>q. bound_number bound = Some q \<and> strictly_below q x)"

text \<open>A bound, where the schema gives it, is a number.\<close>

definition is_number :: "json option \<Rightarrow> bool" where
  "is_number bound \<longleftrightarrow> (\<forall>b. bound = Some b \<longrightarrow> bound_number b \<noteq> None)"

text \<open>
  The shapes of the messages: the messages of the field checks begin with the quoted field
  name, and all but the pattern message go on with \<^verbatim>\<open>must\<close>.
\<close>

definition named :: "string \<Rightarrow> string \<Rightarrow> bool" where
  "named field_name m \<longleftrightarrow> (\<exists>t. m = quoted field_name @ '' must '' @ t)"

definition starts_quoted :: "string \<Rightarrow> bool" where
  "starts_quoted m \<longleftrightarrow> (\<exists>t. m = CHR 0x27 # t)"

text \<open>A required name is missing from the data: no such key, or the empty string under it.\<close>

definition is_required_missing :: "(string \<times> form_value) list \<Rightarrow> string \<Rightarrow> bool" where
  "is_required_missing data name \<longleftrightarrow> map_of data name = None \<or> map_of data name = Some (Leaf [])"

text \<open>A schema that requires \<^verbatim>\<open>name\<close>, a string of three characters at least.\<close>

definition name_schema :: json where
  "name_schema =
     JObj [(''required'', JArr [JStr ''name'']),
           (''properties'',
            JObj [(''name'', JObj [(''type'', JStr ''string''), (''minLength'', JInt 3)])])]"

text \<open>A schema with the integer \<^verbatim>\<open>age\<close> between 0 and 10.\<close>

definition age_field :: "(string \<times> json) list" where
  "age_field = [(''type'', JStr ''integer''), (''minimum'', JInt 0), (''maximum'', JInt 10)]"

definition age_schema :: json where
  "age_schema = JObj [(''properties'', JObj [(''age'', JObj age_field)])]"

text \<open>The schema of a number field between 1 and 10.0.\<close>

definition price_field :: "(string \<times> json) list" where
  "price_field =
     [(''type'', JStr ''number''), (''minimum'', JInt 1), (''maximum'', JFloat (Finite 10))]"



subsection \<open>What a pattern matches\<close>

text \<open>
  The structure of a pattern, and the matches it has in a subject string: \<open>matches r s i j\<close>
  says that \<open>r\<close> matches the characters of \<open>s\<close> from position \<open>i\<close> up to position \<open>j\<close>. A
  character matches itself, a class matches its members (\<open>AnyOf\<close>) or everything but its
  members (\<open>NoneOf\<close>; the dot is \<open>NoneOf\<close> of the newline). \<^verbatim>\<open>^\<close> matches at position 0; \<^verbatim>\<open>$\<close>
  matches at the end of the subject and before a newline that ends it.
\<close>

datatype regex =
    Lit char
  | AnyOf "char list"
  | NoneOf "char list"
  | Epsilon
  | Seq regex regex
  | Alt regex regex
  | Star regex
  | Bol
  | Eol

inductive matches :: "regex \<Rightarrow> string \<Rightarrow> nat \<Rightarrow> nat \<Rightarrow> bool" where
  lit: "i < length s \<Longrightarrow> s ! i = c \<Longrightarrow> matches (Lit c) s i (Suc i)"
| any_of: "i < length s \<Longrightarrow> s ! i \<in> set cs \<Longrightarrow> matches (AnyOf cs) s i (Suc i)"
| none_of: "i < length s \<Longrightarrow> s ! i \<notin> set cs \<Longrightarrow> matches (NoneOf cs) s i (Suc i)"
| eps: "i \<le> length s \<Longrightarrow> matches Epsilon s i i"
| seq: "matches r1 s i k \<Longrightarrow> matches r2 s k j \<Longrightarrow> matches (Seq r1 r2) s i j"
| alt_left: "matches r1 s i j \<Longrightarrow> matches (Alt r1 r2) s i j"
| alt_right: "matches r2 s i j \<Longrightarrow> matches (Alt r1 r2) s i j"
| star_none: "i \<le> length s \<Longrightarrow> matches (Star r) s i i"
| star_more: "matches r s i k \<Longrightarrow> matches (Star r) s k j \<Longrightarrow> matches (Star r) s i j"
| bol: "matches Bol s 0 0"
| eol: "i = length s \<or> (Suc i = length s \<and> s ! i = CHR 0x0A) \<Longrightarrow> matches Eol s i i"


definition matches_at_start :: "regex \<Rightarrow> string \<Rightarrow> bool" where
  "matches_at_start r s \<longleftrightarrow> (\<exists>j. matches r s 0 j)"

text \<open>
  A compiled pattern does what \<^verbatim>\<open>re.match\<close> is documented to do for the pattern \<open>r\<close>: it
  returns a match when zero or more characters at the beginning of the subject match \<open>r\<close>
  (the end of such a match), and \<^verbatim>\<open>None\<close> when there is no match beginning at position 0.
\<close>

definition engine_for :: "(string \<Rightarrow> nat option) \<Rightarrow> regex \<Rightarrow> bool" where
  "engine_for matcher r \<longleftrightarrow>
     (\<forall>s. case matcher s of None \<Rightarrow> \<not> matches_at_start r s | Some e \<Rightarrow> matches r s 0 e)"

text \<open>The pattern of a text without special characters: its characters in sequence.\<close>

fun lits :: "string \<Rightarrow> regex" where
  "lits [] = Epsilon"
| "lits (c # cs) = Seq (Lit c) (lits cs)"



section \<open>Properties of reference resolution\<close>

subsection \<open>Call depth\<close>

text \<open>
  A result other than \<open>RecursionError\<close> is the same at every greater call depth: the
  depth only decides whether the interpreter gives up.
\<close>

lemma resolve_list_mono:
  assumes "\<And>x r. x \<in> set xs \<Longrightarrow> f x = r \<Longrightarrow> r \<noteq> Inl RecursionError \<Longrightarrow> g x = r"
    and "resolve_list f xs = r" and "r \<noteq> Inl RecursionError"
  shows "resolve_list g xs = r"
  using assms
proof (induction xs arbitrary: r)
  case Nil
  then show ?case by simp
next
  case (Cons x xs)
  show ?case
  proof (cases "f x")
    case (Inl e)
    with Cons.prems have "r = Inl e" "e \<noteq> RecursionError" by auto
    moreover from Cons.prems(1)[of x "Inl e"] Inl \<open>e \<noteq> RecursionError\<close> have "g x = Inl e" by simp
    ultimately show ?thesis by simp
  next
    case (Inr y)
    with Cons.prems(1)[of x "Inr y"] have gx: "g x = Inr y" by simp
    show ?thesis
    proof (cases "resolve_list f xs")
      case (Inl e)
      with Cons.prems Inr have r: "r = Inl e" "e \<noteq> RecursionError" by auto
      have "resolve_list g xs = Inl e"
        by (rule Cons.IH[OF _ Inl]) (use Cons.prems(1) r in auto)
      with gx r show ?thesis by simp
    next
      case (Inr ys)
      have "resolve_list g xs = Inr ys"
        by (rule Cons.IH[OF _ Inr]) (use Cons.prems(1) in auto)
      with gx Inr \<open>f x = Inr y\<close> Cons.prems(2) show ?thesis by simp
    qed
  qed
qed

lemma resolve_items_mono:
  assumes "\<And>v r. v \<in> snd ` set kvs \<Longrightarrow> f v = r \<Longrightarrow> r \<noteq> Inl RecursionError \<Longrightarrow> g v = r"
    and "resolve_items f kvs acc = r" and "r \<noteq> Inl RecursionError"
  shows "resolve_items g kvs acc = r"
  using assms
proof (induction kvs arbitrary: acc)
  case Nil
  then show ?case by simp
next
  case (Cons kv kvs)
  obtain k v where kv: "kv = (k, v)" by (cases kv)
  show ?case
  proof (cases "f v")
    case (Inl e)
    with Cons.prems kv have "r = Inl e" "e \<noteq> RecursionError" by auto
    moreover from Cons.prems(1)[of v "Inl e"] Inl kv \<open>e \<noteq> RecursionError\<close> have "g v = Inl e" by simp
    ultimately show ?thesis using kv by simp
  next
    case (Inr v')
    with Cons.prems(1)[of v "Inr v'"] kv have gv: "g v = Inr v'" by simp
    have "resolve_items g kvs (dict_set acc k v') = r"
      by (rule Cons.IH) (use Cons.prems Inr kv in auto)
    with gv kv show ?thesis by simp
  qed
qed

lemma resolve_schema_refs_Suc:
  "resolve_schema_refs n part full = r \<Longrightarrow> r \<noteq> Inl RecursionError
     \<Longrightarrow> resolve_schema_refs (Suc n) part full = r"
proof (induction n arbitrary: part r)
  case 0
  then show ?case by simp
next
  case (Suc n)
  show ?case
  proof (cases part)
    case (JArr items)
    from Suc.prems have "(case resolve_list (\<lambda>item. resolve_schema_refs n item full) items of
        Inl e \<Rightarrow> Inl e | Inr ys \<Rightarrow> Inr (JArr ys)) = r" by (simp add: JArr)
    then obtain q where q: "resolve_list (\<lambda>item. resolve_schema_refs n item full) items = q"
      "q \<noteq> Inl RecursionError" "(case q of Inl e \<Rightarrow> Inl e | Inr ys \<Rightarrow> Inr (JArr ys)) = r"
      using Suc.prems(2) by (auto split: sum.splits)
    have "resolve_list (\<lambda>item. resolve_schema_refs (Suc n) item full) items = q"
      by (rule resolve_list_mono[OF _ q(1) q(2)]) (rule Suc.IH)
    with q(3) show ?thesis by (simp add: JArr)
  next
    case (JObj kvs)
    show ?thesis
    proof (cases "map_of kvs ''$ref''")
      case None
      from Suc.prems have "(case resolve_items (\<lambda>v. resolve_schema_refs n v full) kvs [] of
        Inl e \<Rightarrow> Inl e | Inr res \<Rightarrow> Inr (JObj res)) = r" by (simp add: JObj None)
      then obtain q where q: "resolve_items (\<lambda>v. resolve_schema_refs n v full) kvs [] = q"
        "q \<noteq> Inl RecursionError" "(case q of Inl e \<Rightarrow> Inl e | Inr res \<Rightarrow> Inr (JObj res)) = r"
        using Suc.prems(2) by (auto split: sum.splits)
      have "resolve_items (\<lambda>v. resolve_schema_refs (Suc n) v full) kvs [] = q"
        by (rule resolve_items_mono[OF _ q(1) q(2)]) (rule Suc.IH)
      with q(3) show ?thesis by (simp add: JObj None)
    next
      case (Some ref)
      show ?thesis
      proof (cases "resolve_ref ref full")
        case (Inl e)
        with Suc.prems show ?thesis by (auto simp: JObj Some)
      next
        case (Inr t)
        show ?thesis
        proof (cases "truthy t")
          case True
          with Suc.prems Inr have "resolve_schema_refs n t full = r" by (simp add: JObj Some)
          from Suc.IH[OF this Suc.prems(2)] True Inr show ?thesis by (simp add: JObj Some)
        next
          case False
          with Suc.prems Inr show ?thesis by (simp add: JObj Some)
        qed
      qed
    qed
  qed (use Suc.prems in auto)
qed

lemma resolve_schema_refs_mono:
  "n \<le> m \<Longrightarrow> resolve_schema_refs n part full = r \<Longrightarrow> r \<noteq> Inl RecursionError
     \<Longrightarrow> resolve_schema_refs m part full = r"
  by (induction m) (auto simp: le_Suc_eq resolve_schema_refs_Suc)

lemma resolve_list_returns:
  "(\<And>x. x \<in> set xs \<Longrightarrow> f x \<noteq> Inl RecursionError) \<Longrightarrow> resolve_list f xs \<noteq> Inl RecursionError"
  by (induction xs) (auto split: sum.splits)

lemma resolve_items_returns:
  "(\<And>v. v \<in> snd ` set kvs \<Longrightarrow> f v \<noteq> Inl RecursionError)
     \<Longrightarrow> resolve_items f kvs acc \<noteq> Inl RecursionError"
  by (induction kvs arbitrary: acc) (auto split: sum.splits)

lemma common_depth:
  "(\<forall>x \<in> set xs. \<exists>n. resolve_schema_refs n x full \<noteq> Inl RecursionError)
     \<Longrightarrow> \<exists>n. \<forall>x \<in> set xs. resolve_schema_refs n x full \<noteq> Inl RecursionError"
proof (induction xs)
  case Nil
  then show ?case by simp
next
  case (Cons x xs)
  then obtain a b where a: "resolve_schema_refs a x full \<noteq> Inl RecursionError"
    and b: "\<forall>y \<in> set xs. resolve_schema_refs b y full \<noteq> Inl RecursionError" by auto
  have "resolve_schema_refs (max a b) x full \<noteq> Inl RecursionError"
    using resolve_schema_refs_mono[of a "max a b" x full] a by auto
  moreover have "\<forall>y \<in> set xs. resolve_schema_refs (max a b) y full \<noteq> Inl RecursionError"
    using resolve_schema_refs_mono[of b "max a b" _ full] b by auto
  ultimately show ?case by auto
qed

lemma acyclic_refs_returns:
  "acyclic_refs part full \<Longrightarrow> \<exists>n. resolve_schema_refs n part full \<noteq> Inl RecursionError"
proof (induction rule: acyclic_refs.induct)
  case (plain part full)
  then have "resolve_schema_refs (Suc 0) part full = Inr part" by (cases part) auto
  then show ?case by (metis sum.distinct(1))
next
  case (array items full)
  then have "\<forall>x \<in> set items. \<exists>n. resolve_schema_refs n x full \<noteq> Inl RecursionError" by blast
  from common_depth[OF this] obtain n where
    "\<forall>x \<in> set items. resolve_schema_refs n x full \<noteq> Inl RecursionError" ..
  then have "resolve_list (\<lambda>item. resolve_schema_refs n item full) items \<noteq> Inl RecursionError"
    by (intro resolve_list_returns) auto
  then have "resolve_schema_refs (Suc n) (JArr items) full \<noteq> Inl RecursionError"
    by (auto split: sum.splits)
  then show ?case ..
next
  case (object kvs full)
  then have "\<forall>x \<in> set (map snd kvs). \<exists>n. resolve_schema_refs n x full \<noteq> Inl RecursionError"
    by auto
  from common_depth[OF this] obtain n where
    "\<forall>x \<in> set (map snd kvs). resolve_schema_refs n x full \<noteq> Inl RecursionError" ..
  then have "resolve_items (\<lambda>v. resolve_schema_refs n v full) kvs [] \<noteq> Inl RecursionError"
    by (intro resolve_items_returns) auto
  with object(1) have "resolve_schema_refs (Suc n) (JObj kvs) full \<noteq> Inl RecursionError"
    by (auto split: sum.splits)
  then show ?case ..
next
  case (ref_raises kvs r full e)
  then have "resolve_schema_refs (Suc 0) (JObj kvs) full = Inl e" by simp
  moreover from ref_raises(2) have "e \<noteq> RecursionError" by (cases r) (auto split: if_splits)
  ultimately show ?case by (metis sum.inject(1))
next
  case (ref_kept kvs r full t)
  then have "resolve_schema_refs (Suc 0) (JObj kvs) full = Inr (JObj kvs)" by simp
  then show ?case by (metis sum.distinct(1))
next
  case (ref_followed kvs r full t)
  then obtain n where "resolve_schema_refs n t full \<noteq> Inl RecursionError" by blast
  with ref_followed(1-3) have "resolve_schema_refs (Suc n) (JObj kvs) full \<noteq> Inl RecursionError"
    by simp
  then show ?case ..
qed

lemma cyclic_doc_exhausts:
  "resolve_schema_refs n (JObj [(''$ref'', JStr ''#/B'')]) cyclic_doc = Inl RecursionError
   \<and> resolve_schema_refs n (JObj [(''$ref'', JStr ''#/A'')]) cyclic_doc = Inl RecursionError"
proof (induction n)
  case 0
  show ?case by simp
next
  case (Suc n)
  then show ?case by (simp add: cyclic_doc_def numeral_2_eq_2)
qed

lemma cyclic_doc_top: "resolve_schema_refs n cyclic_doc cyclic_doc = Inl RecursionError"
proof (cases n)
  case 0
  then show ?thesis by simp
next
  case (Suc m)
  show ?thesis
    unfolding Suc
    by (subst cyclic_doc_def) (simp add: cyclic_doc_exhausts)
qed

lemma chain_doc_acyclic: "acyclic_refs chain_doc chain_doc"
proof -
  have r1: "resolve_ref (JStr ''#/$defs/Y'') chain_doc = Inr (JObj [(''type'', JStr ''string'')])"
    by (simp add: chain_doc_def numeral_2_eq_2)
  have r2: "resolve_ref (JStr ''#/$defs/X'') chain_doc = Inr (JObj [(''$ref'', JStr ''#/$defs/Y'')])"
    by (simp add: chain_doc_def numeral_2_eq_2)
  have y: "acyclic_refs (JObj [(''type'', JStr ''string'')]) chain_doc"
    by (rule acyclic_refs.object) (auto intro: acyclic_refs.plain)
  have x: "acyclic_refs (JObj [(''$ref'', JStr ''#/$defs/Y'')]) chain_doc"
    by (rule acyclic_refs.ref_followed[OF _ r1 _ y]) simp_all
  have a: "acyclic_refs (JObj [(''$ref'', JStr ''#/$defs/X'')]) chain_doc"
    by (rule acyclic_refs.ref_followed[OF _ r2 _ x]) simp_all
  have defs: "acyclic_refs (JObj [(''X'', JObj [(''$ref'', JStr ''#/$defs/Y'')]),
                             (''Y'', JObj [(''type'', JStr ''string'')])]) chain_doc"
    by (rule acyclic_refs.object) (simp_all add: x y)
  have props: "acyclic_refs (JObj [(''a'', JObj [(''$ref'', JStr ''#/$defs/X'')])]) chain_doc"
    by (rule acyclic_refs.object) (simp_all add: a)
  have "acyclic_refs (JObj [(''$defs'', JObj [(''X'', JObj [(''$ref'', JStr ''#/$defs/Y'')]),
                             (''Y'', JObj [(''type'', JStr ''string'')])]),
           (''properties'', JObj [(''a'', JObj [(''$ref'', JStr ''#/$defs/X'')])])]) chain_doc"
    by (rule acyclic_refs.object) (simp_all add: defs props)
  then show ?thesis by (simp add: chain_doc_def)
qed

text \<open>
  Claim C1, as stated: resolution returns on every document, and on a cycle it gives the
  cyclic node back unresolved. It does not: on the document in which \<^verbatim>\<open>A\<close> refers to \<^verbatim>\<open>B\<close>
  and \<^verbatim>\<open>B\<close> to \<^verbatim>\<open>A\<close>, no call depth is enough for \<open>resolve_schema_refs\<close> to return a tree;
  the recursion runs until the interpreter raises \<^verbatim>\<open>RecursionError\<close>.
\<close>

theorem cyclic_refs_never_return:
  "\<not> (\<exists>n r. resolve_schema_refs n cyclic_doc cyclic_doc = Inr r)"
  by (simp add: cyclic_doc_top)

text \<open>
  Claim C1, amended: on a document whose references are acyclic, resolution terminates.
  There is a call depth from which on \<open>resolve_schema_refs\<close> gives one and the same
  result, and the result is not \<^verbatim>\<open>RecursionError\<close>.
\<close>

theorem acyclic_refs_terminate:
  "acyclic_refs part full \<Longrightarrow>
     \<exists>n r. r \<noteq> Inl RecursionError \<and> (\<forall>m \<ge> n. resolve_schema_refs m part full = r)"
proof -
  assume "acyclic_refs part full"
  then obtain n where n: "resolve_schema_refs n part full \<noteq> Inl RecursionError"
    using acyclic_refs_returns by blast
  then have "\<forall>m \<ge> n. resolve_schema_refs m part full = resolve_schema_refs n part full"
    using resolve_schema_refs_mono by blast
  with n show ?thesis by blast
qed

text \<open>
  The amended claim C1 on the document with the chain \<^verbatim>\<open>a\<close>, \<^verbatim>\<open>X\<close>, \<^verbatim>\<open>Y\<close>: its references
  are acyclic, and its resolution settles.
\<close>

theorem acyclic_refs_terminate_witness:
  "acyclic_refs chain_doc chain_doc
   \<and> (\<exists>n r. r \<noteq> Inl RecursionError \<and> (\<forall>m \<ge> n. resolve_schema_refs m chain_doc chain_doc = r))
   \<and> resolve_schema_refs 6 chain_doc chain_doc =
       Inr (JObj [(''$defs'', JObj [(''X'', JObj [(''type'', JStr ''string'')]),
                                   (''Y'', JObj [(''type'', JStr ''string'')])]),
                  (''properties'', JObj [(''a'', JObj [(''type'', JStr ''string'')])])])"
proof -
  have "resolve_schema_refs 6 chain_doc chain_doc =
       Inr (JObj [(''$defs'', JObj [(''X'', JObj [(''type'', JStr ''string'')]),
                                   (''Y'', JObj [(''type'', JStr ''string'')])]),
                  (''properties'', JObj [(''a'', JObj [(''type'', JStr ''string'')])])])"
    by (simp add: chain_doc_def eval_nat_numeral)
  with acyclic_refs_terminate [of chain_doc chain_doc] chain_doc_acyclic show ?thesis
    by blast
qed

subsection \<open>References that cannot be resolved\<close>








subsection \<open>Referents that count as false\<close>

text \<open>
  Claim C10: when the pointer of a \<^verbatim>\<open>$ref\<close> node is found and the value found is the empty
  object, the empty list, the empty string, zero, \<^verbatim>\<open>false\<close> or \<^verbatim>\<open>null\<close>, the node is returned
  unchanged, as if the pointer had not been found.
\<close>

theorem falsy_referent_keeps_ref:
  assumes "map_of node ''$ref'' = Some r" and "resolve_ref r full = Inr referent"
    and "referent \<in> {JObj [], JArr [], JStr [], JInt 0, JFloat (Finite 0), JBool False, JNull}"
  shows "resolve_schema_refs (Suc n) (JObj node) full = Inr (JObj node)"
  using assms by auto

text \<open>
  Claim C10 on the document whose property \<^verbatim>\<open>p\<close> points at the empty object under
  \<^verbatim>\<open>$defs\<close>: the pointer is found, and the \<^verbatim>\<open>$ref\<close> node stays.
\<close>

theorem falsy_referent_keeps_ref_witness:
  "map_of [(''$ref'', JStr ''#/$defs/E'')] ''$ref'' = Some (JStr ''#/$defs/E'')
   \<and> resolve_ref (JStr ''#/$defs/E'') empty_target_doc = Inr (JObj [])
   \<and> \<not> lookup_fails (split_on CHR ''/'' ''$defs/E'') empty_target_doc
   \<and> resolve_schema_refs (Suc 0) (JObj [(''$ref'', JStr ''#/$defs/E'')]) empty_target_doc
       = Inr (JObj [(''$ref'', JStr ''#/$defs/E'')])"
proof -
  have r: "resolve_ref (JStr ''#/$defs/E'') empty_target_doc = Inr (JObj [])"
    by (simp add: empty_target_doc_def numeral_2_eq_2)
  have m: "map_of [(''$ref'', JStr ''#/$defs/E'')] ''$ref'' = Some (JStr ''#/$defs/E'')"
    by simp
  have f: "\<not> lookup_fails (split_on CHR ''/'' ''$defs/E'') empty_target_doc"
    by (simp add: empty_target_doc_def)
  show ?thesis
    using falsy_referent_keeps_ref [OF m r, of 0] r f by simp
qed

section \<open>Properties of the assembly\<close>

lemma split_on_not_Nil: "split_on c s \<noteq> []"
  by (induction s) (auto split: list.splits)

lemma split_on_absent: "c \<notin> set s \<Longrightarrow> split_on c s = [s]"
  by (induction s) auto

lemma map_of_form_set: "map_of (form_set tree k x) = (map_of tree)(k \<mapsto> x)"
  by (induction tree k x rule: form_set.induct) auto

lemma leaf_at_Nil: "\<not> leaf_at q []"
  by (cases q) auto

lemma set_nested_assemble_key:
  "p \<noteq> [] \<Longrightarrow> (\<And>q. proper_prefix q p \<Longrightarrow> \<not> leaf_at q tree)
     \<Longrightarrow> set_nested p v tree = Inr (assemble_key p v tree)"
proof (induction p v tree rule: set_nested.induct)
  case (1 v current)
  then show ?case by simp
next
  case (2 final_key v current)
  show ?case by simp
next
  case (3 part p2 ps v current)
  have "\<not> leaf_at [part] current"
    by (rule "3.prems"(2)) simp
  then have no_leaf: "map_of current part \<noteq> Some (Leaf s)" for s
    by auto
  show ?case
  proof (cases "map_of current part")
    case None
    have "set_nested (p2 # ps) v [] = Inr (assemble_key (p2 # ps) v [])"
      by (rule "3.IH"(1)[OF None]) (simp_all add: leaf_at_Nil)
    with None show ?thesis by simp
  next
    case (Some x)
    with no_leaf obtain sub where x: "x = Node sub" by (cases x) auto
    have "set_nested (p2 # ps) v sub = Inr (assemble_key (p2 # ps) v sub)"
    proof (rule "3.IH"(2)[OF Some x])
      show "p2 # ps \<noteq> []" by simp
      fix q assume "proper_prefix q (p2 # ps)"
      then have "proper_prefix (part # q) (part # p2 # ps)" by simp
      then have "\<not> leaf_at (part # q) current" by (rule "3.prems"(2))
      then show "\<not> leaf_at q sub" using Some x by simp
    qed
    with Some x show ?thesis by simp
  qed
qed

lemma leaf_at_assemble_key:
  "leaf_at q (assemble_key p v tree) \<Longrightarrow> leaf_at q tree \<or> q = p"
proof (induction p v tree arbitrary: q rule: assemble_key.induct)
  case (1 v level)
  then show ?case by simp
next
  case (2 seg v level)
  then show ?case
    by (cases q) (auto simp: map_of_form_set split: if_splits)
next
  case (3 seg s2 segs v level)
  show ?case
  proof (cases q)
    case Nil
    with "3.prems" show ?thesis by simp
  next
    case (Cons s q')
    show ?thesis
    proof (cases "s = seg")
      case False
      with "3.prems" Cons show ?thesis by (simp add: map_of_form_set)
    next
      case True
      let ?sub = "case map_of level seg of Some (Node sub) \<Rightarrow> sub | _ \<Rightarrow> []"
      from "3.prems" Cons True have "leaf_at q' (assemble_key (s2 # segs) v ?sub)"
        by (simp add: map_of_form_set)
      then have "leaf_at q' ?sub \<or> q' = s2 # segs" by (rule "3.IH")
      then show ?thesis
      proof
        assume l: "leaf_at q' ?sub"
        then obtain sub where "map_of level seg = Some (Node sub)" "leaf_at q' sub"
          by (auto simp: leaf_at_Nil split: option.splits form_value.splits)
        then show ?thesis using Cons True by simp
      next
        assume "q' = s2 # segs"
        then show ?thesis using Cons True by simp
      qed
    qed
  qed
qed

lemma assemble_step_paths:
  "leaf_at q (assemble_step (key, v) tree) \<Longrightarrow> leaf_at q tree \<or> q = split_on CHR ''.'' key"
proof (cases "CHR ''.'' \<in> set key")
  case True
  assume "leaf_at q (assemble_step (key, v) tree)"
  with True show ?thesis by (auto dest: leaf_at_assemble_key)
next
  case False
  assume "leaf_at q (assemble_step (key, v) tree)"
  with False have "leaf_at q (assemble_key [key] v tree)" by simp
  then have "leaf_at q tree \<or> q = [key]" by (rule leaf_at_assemble_key)
  with False show ?thesis by (simp add: split_on_absent)
qed

lemma parse_loop_assemble:
  assumes "\<And>k q. k \<in> fst ` set rest \<Longrightarrow> proper_prefix q (split_on CHR ''.'' k) \<Longrightarrow> \<not> leaf_at q tree"
    and "\<And>k1 k2. k1 \<in> fst ` set rest \<Longrightarrow> k2 \<in> fst ` set rest
           \<Longrightarrow> \<not> proper_prefix (split_on CHR ''.'' k1) (split_on CHR ''.'' k2)"
  shows "parse_loop rest tree = Inr (fold assemble_step rest tree)"
  using assms
proof (induction rest arbitrary: tree)
  case Nil
  show ?case by simp
next
  case (Cons kv rest)
  obtain key v where kv: "kv = (key, v)" by (cases kv)
  let ?tree' = "assemble_step (key, v) tree"
  have step: "parse_loop (kv # rest) tree = parse_loop rest ?tree'"
  proof (cases "CHR ''.'' \<in> set key")
    case True
    have "set_nested (split_on CHR ''.'' key) v tree = Inr (assemble_key (split_on CHR ''.'' key) v tree)"
    proof (rule set_nested_assemble_key)
      show "split_on CHR ''.'' key \<noteq> []" by (rule split_on_not_Nil)
      fix q assume "proper_prefix q (split_on CHR ''.'' key)"
      then show "\<not> leaf_at q tree" using Cons.prems(1)[of key q] kv by simp
    qed
    with True show ?thesis by (simp add: kv)
  next
    case False
    then show ?thesis by (simp add: kv)
  qed
  have "parse_loop rest ?tree' = Inr (fold assemble_step rest ?tree')"
  proof (rule Cons.IH)
    fix k q
    assume k: "k \<in> fst ` set rest" and q: "proper_prefix q (split_on CHR ''.'' k)"
    show "\<not> leaf_at q ?tree'"
    proof
      assume "leaf_at q ?tree'"
      then have "leaf_at q tree \<or> q = split_on CHR ''.'' key" by (rule assemble_step_paths)
      moreover have "\<not> leaf_at q tree" using Cons.prems(1)[of k q] k q by simp
      moreover have "\<not> proper_prefix (split_on CHR ''.'' key) (split_on CHR ''.'' k)"
        using Cons.prems(2)[of key k] k kv by simp
      ultimately show False using q by auto
    qed
  next
    fix k1 k2
    assume "k1 \<in> fst ` set rest" "k2 \<in> fst ` set rest"
    then show "\<not> proper_prefix (split_on CHR ''.'' k1) (split_on CHR ''.'' k2)"
      using Cons.prems(2)[of k1 k2] by simp
  qed
  with step show ?case by (simp add: kv)
qed

text \<open>
  Claim C8: for a flat submission whose keys collide at no segment, the assembly returns
  the tree that the specification describes (a key without a dot set as a top-level leaf;
  a dotted key split at the dots, every segment but the last descended into, created as an
  empty map where absent, and the last segment set as a leaf); and the submission with
  \<^verbatim>\<open>a.b.c = 1\<close> and \<^verbatim>\<open>a.b.d = 2\<close> gives \<^verbatim>\<open>{a: {b: {c: 1, d: 2}}}\<close>.
\<close>

theorem assembly_of_collision_free_submission:
  "(collision_free flat \<longrightarrow> parse_nested_form_data flat = Inr (assemble flat))
   \<and> parse_nested_form_data [(''a.b.c'', ''1''), (''a.b.d'', ''2'')]
       = Inr [(''a'', Node [(''b'', Node [(''c'', Leaf ''1''), (''d'', Leaf ''2'')])])]"
proof (intro conjI impI)
  assume "collision_free flat"
  then have "parse_loop flat [] = Inr (fold assemble_step flat [])"
    by (intro parse_loop_assemble) (auto simp: collision_free_def leaf_at_Nil)
  then show "parse_nested_form_data flat = Inr (assemble flat)"
    by (simp add: parse_nested_form_data_def assemble_def)
next
  show "parse_nested_form_data [(''a.b.c'', ''1''), (''a.b.d'', ''2'')]
       = Inr [(''a'', Node [(''b'', Node [(''c'', Leaf ''1''), (''d'', Leaf ''2'')])])]"
    by (simp add: parse_nested_form_data_def)
qed

text \<open>
  Claim C8 on a submission of three keys without a collision: the assembly of the source
  returns the tree of the specification, which is the expected one.
\<close>

theorem assembly_witness:
  "collision_free [(''a.b.c'', ''1''), (''a.b.d'', ''2''), (''e'', ''3'')]
   \<and> parse_nested_form_data [(''a.b.c'', ''1''), (''a.b.d'', ''2''), (''e'', ''3'')]
       = Inr (assemble [(''a.b.c'', ''1''), (''a.b.d'', ''2''), (''e'', ''3'')])
   \<and> assemble [(''a.b.c'', ''1''), (''a.b.d'', ''2''), (''e'', ''3'')]
       = [(''a'', Node [(''b'', Node [(''c'', Leaf ''1''), (''d'', Leaf ''2'')])]), (''e'', Leaf ''3'')]"
proof -
  have c: "collision_free [(''a.b.c'', ''1''), (''a.b.d'', ''2''), (''e'', ''3'')]"
    by (simp add: collision_free_def)
  have a: "assemble [(''a.b.c'', ''1''), (''a.b.d'', ''2''), (''e'', ''3'')]
       = [(''a'', Node [(''b'', Node [(''c'', Leaf ''1''), (''d'', Leaf ''2'')])]), (''e'', Leaf ''3'')]"
    by (simp add: assemble_def)
  from assembly_of_collision_free_submission [of "[(''a.b.c'', ''1''), (''a.b.d'', ''2''), (''e'', ''3'')]"] c
  have "parse_nested_form_data [(''a.b.c'', ''1''), (''a.b.d'', ''2''), (''e'', ''3'')]
       = Inr (assemble [(''a.b.c'', ''1''), (''a.b.d'', ''2''), (''e'', ''3'')])"
    by blast
  with c a show ?thesis by blast
qed

text \<open>
  Claim C3 says that a collision between a leaf and a map never fails and that the key
  processed last wins. The source does so when the map is there first; when the leaf is
  there first (\<^verbatim>\<open>x = 1\<close>, then \<^verbatim>\<open>x.y = 2\<close>), the walk takes the string for \<^verbatim>\<open>current\<close> and the
  assignment into it raises \<^verbatim>\<open>TypeError\<close>.
\<close>

theorem leaf_then_map_raises:
  "parse_nested_form_data [(''x'', ''1''), (''x.y'', ''2'')] = Inl TypeError
   \<and> parse_nested_form_data [(''x.y'', ''2''), (''x'', ''1'')] = Inr [(''x'', Leaf ''1'')]"
  by (simp add: parse_nested_form_data_def)


section \<open>Properties of the validation\<close>

subsection \<open>The messages of the field checks\<close>

lemma py_bind_eq_Inr: "(py_bind m f = Inr y) = (\<exists>x. m = Inr x \<and> f x = Inr y)"
  by (cases m) auto

lemma check_min_length_named:
  "check_min_length rt f v fs = Inr errs \<Longrightarrow> m \<in> set errs \<Longrightarrow> named f m"
  by (auto simp: check_min_length_def named_def py_bind_eq_Inr split: option.splits if_splits)

lemma check_max_length_named:
  "check_max_length rt f v fs = Inr errs \<Longrightarrow> m \<in> set errs \<Longrightarrow> named f m"
  by (auto simp: check_max_length_def named_def py_bind_eq_Inr split: option.splits if_splits)

lemma check_enum_named:
  "check_enum rt f v fs = Inr errs \<Longrightarrow> m \<in> set errs \<Longrightarrow> named f m"
  by (auto simp: check_enum_def named_def py_bind_eq_Inr split: option.splits if_splits)

lemma check_format_named:
  "check_format rt f v fs = Inr errs \<Longrightarrow> m \<in> set errs \<Longrightarrow> named f m"
  by (auto simp: check_format_def named_def py_bind_eq_Inr split: option.splits if_splits)

lemma check_numeric_named:
  "check_numeric rt f v ty fs = Inr errs \<Longrightarrow> m \<in> set errs \<Longrightarrow> named f m"
  by (auto simp: check_numeric_def named_def py_bind_eq_Inr
           split: option.splits if_splits form_value.splits)

lemma check_pattern_cases:
  "check_pattern rt f v fs = Inr errs \<Longrightarrow>
     errs = [] \<or> errs = [quoted f @ '' does not match required pattern'']"
  by (auto simp: check_pattern_def py_bind_eq_Inr split: option.splits if_splits)


lemma named_starts: "named f m \<Longrightarrow> starts_quoted m"
  by (auto simp: named_def starts_quoted_def quoted_def)

lemma validate_field_value_starts:
  assumes "validate_field_value rt f v fs = Inr errs" and "m \<in> set errs"
  shows "starts_quoted m"
proof (cases fs)
  case (JObj kvs)
  let ?ty = "case map_of kvs ''type'' of Some t \<Rightarrow> t | None \<Rightarrow> JStr ''string''"
  consider (str) "?ty = JStr ''string''" | (int) "?ty = JStr ''integer''"
    | (num) "?ty = JStr ''number''"
    | (other) "?ty \<noteq> JStr ''string''" "?ty \<noteq> JStr ''integer''" "?ty \<noteq> JStr ''number''"
    by blast
  then show ?thesis
  proof cases
    case str
    with assms JObj obtain e1 e2 e3 e4 e5 where
      e: "check_min_length rt f v kvs = Inr e1" "check_max_length rt f v kvs = Inr e2"
         "check_pattern rt f v kvs = Inr e3" "check_enum rt f v kvs = Inr e4"
         "check_format rt f v kvs = Inr e5" "errs = e1 @ e2 @ e3 @ e4 @ e5"
      by (auto simp: py_bind_eq_Inr Let_def)
    from e(6) assms(2) consider "m \<in> set e1" | "m \<in> set e2" | "m \<in> set e3" | "m \<in> set e4"
      | "m \<in> set e5" by auto
    then show ?thesis
    proof cases
      case 3
      with check_pattern_cases[OF e(3)] show ?thesis
        by (auto simp: starts_quoted_def quoted_def)
    qed (use e in \<open>auto dest: check_min_length_named check_max_length_named check_enum_named
          check_format_named named_starts\<close>)
  next
    case int
    with assms JObj show ?thesis
      by (auto simp: Let_def dest: check_numeric_named named_starts)
  next
    case num
    with assms JObj show ?thesis
      by (auto simp: Let_def dest: check_numeric_named named_starts)
  next
    case other
    with assms JObj show ?thesis by (auto simp: Let_def)
  qed
qed (use assms in auto)

lemma validate_item_starts:
  "validate_item n rt props resolved f v = Inr errs \<Longrightarrow> m \<in> set errs \<Longrightarrow> starts_quoted m"
  by (auto simp: validate_item_def py_bind_eq_Inr split: if_splits
           dest: validate_field_value_starts)

lemma validate_fields_starts:
  "validate_fields n rt props resolved data = Inr errs \<Longrightarrow> m \<in> set errs \<Longrightarrow> starts_quoted m"
proof (induction data arbitrary: errs)
  case Nil
  then show ?case by simp
next
  case (Cons kv data)
  obtain f v where kv: "kv = (f, v)" by (cases kv)
  from Cons.prems(1) kv obtain e1 e2 where
    e: "validate_item n rt props resolved f v = Inr e1"
       "validate_fields n rt props resolved data = Inr e2" "errs = e1 @ e2"
    by (auto simp: py_bind_eq_Inr)
  with Cons.prems(2) show ?case
    by (auto dest: validate_item_starts Cons.IH)
qed

subsection \<open>The required-field pass\<close>

lemma is_missing_string: "is_missing data (JStr name) = Inr (is_required_missing data name)"
  by (auto simp: is_required_missing_def split: option.splits)

lemma check_required_strings:
  "check_required rt data (map JStr names) =
     Inr (map (\<lambda>name. ''Field '' @ quoted name @ '' is required'')
            (filter (is_required_missing data) names))"
  by (induction names) (simp_all add: is_missing_string del: is_missing.simps)

text \<open>
  Claim C5: when \<^verbatim>\<open>required\<close> of the resolved schema lists the names \<open>names\<close> (none when
  the schema has no \<^verbatim>\<open>required\<close>), the
  message \<^verbatim>\<open>Field '<name>' is required\<close> is among the messages returned exactly for the names
  of the list that are no key of the data or have the empty string as value. The messages
  of the required pass come first, one for each such name in the order of the list, and
  no message of the second pass has their form.
\<close>

theorem required_pass_messages:
  assumes "resolve_schema_refs n schema schema = Inr (JObj resolved)"
    and "(case map_of resolved ''required'' of Some v \<Rightarrow> v | None \<Rightarrow> JArr []) = JArr (map JStr names)"
    and "validate_against_schema n rt data schema = Inr errors"
  shows "((''Field '' @ quoted name @ '' is required'') \<in> set errors \<longleftrightarrow>
            name \<in> set names \<and> (map_of data name = None \<or> map_of data name = Some (Leaf [])))
    \<and> (\<exists>field_errors.
          errors = map (\<lambda>name. ''Field '' @ quoted name @ '' is required'')
                     (filter (\<lambda>name. map_of data name = None \<or> map_of data name = Some (Leaf []))
                        names)
                   @ field_errors
          \<and> (\<forall>m \<in> set field_errors. \<exists>t. m = CHR 0x27 # t))"
proof -
  let ?msg = "\<lambda>name. ''Field '' @ quoted name @ '' is required''"
  let ?req = "map ?msg (filter (is_required_missing data) names)"
  from assms obtain field_errors where
    fe: "errors = ?req @ field_errors"
      "validate_fields n rt (case map_of resolved ''properties'' of Some v \<Rightarrow> v | None \<Rightarrow> JObj [])
         (JObj resolved) data = Inr field_errors"
    by (auto simp: validate_against_schema_def py_bind_eq_Inr check_required_strings
             simp del: check_required.simps)
  have starts: "\<forall>m \<in> set field_errors. starts_quoted m"
    using validate_fields_starts[OF fe(2)] by blast
  have "?msg name \<notin> set field_errors"
    using starts by (auto simp: starts_quoted_def)
  moreover have "?msg name \<in> set ?req \<longleftrightarrow> name \<in> set names \<and> is_required_missing data name"
    by (auto simp: quoted_def)
  ultimately have "?msg name \<in> set errors \<longleftrightarrow> name \<in> set names \<and> is_required_missing data name"
    using fe(1) by auto
  moreover have "is_required_missing data = (\<lambda>name. map_of data name = None \<or> map_of data name = Some (Leaf []))"
    by (auto simp: is_required_missing_def fun_eq_iff)
  ultimately show ?thesis
    using fe(1) starts unfolding starts_quoted_def is_required_missing_def by auto
qed

text \<open>
  Claim C5 on the schema that requires \<^verbatim>\<open>name\<close> with three characters at least: the empty
  submission gets the required message and nothing else; \<^verbatim>\<open>name = ab\<close> gets the length
  message and no required message.
\<close>

theorem required_pass_messages_witness:
  "resolve_schema_refs 4 name_schema name_schema = Inr name_schema
   \<and> validate_against_schema 4 sample_runtime [] name_schema
       = Inr [''Field '' @ quoted ''name'' @ '' is required'']
   \<and> validate_against_schema 4 sample_runtime [(''name'', Leaf ''ab'')] name_schema
       = Inr [quoted ''name'' @ '' must be at least 3 characters'']
   \<and> (''Field '' @ quoted ''name'' @ '' is required'')
        \<notin> set [quoted ''name'' @ '' must be at least 3 characters'']"
proof -
  have r: "resolve_schema_refs 4 name_schema name_schema
      = Inr (JObj [(''required'', JArr [JStr ''name'']),
           (''properties'',
            JObj [(''name'', JObj [(''type'', JStr ''string''), (''minLength'', JInt 3)])])])"
    by (simp add: name_schema_def eval_nat_numeral)
  have q: "(case map_of [(''required'', JArr [JStr ''name'']),
           (''properties'',
            JObj [(''name'', JObj [(''type'', JStr ''string''), (''minLength'', JInt 3)])])]
         ''required'' of Some v \<Rightarrow> v | None \<Rightarrow> JArr []) = JArr (map JStr [''name''])"
    by simp
  have v1: "validate_against_schema 4 sample_runtime [] name_schema
       = Inr [''Field '' @ quoted ''name'' @ '' is required'']"
    by (simp add: validate_against_schema_def r del: resolve_schema_refs.simps)
  have f: "resolve_schema_refs 4 (JObj [(''type'', JStr ''string''), (''minLength'', JInt 3)]) full
       = Inr (JObj [(''type'', JStr ''string''), (''minLength'', JInt 3)])" for full
    by (simp add: eval_nat_numeral)
  have v2: "validate_against_schema 4 sample_runtime [(''name'', Leaf ''ab'')] name_schema
       = Inr [quoted ''name'' @ '' must be at least 3 characters'']"
    by (simp add: validate_against_schema_def r f validate_item_def
          check_min_length_def check_max_length_def check_pattern_def
          check_enum_def check_format_def less_than_def show_int_def
          del: resolve_schema_refs.simps)
  from required_pass_messages [OF r q v2, of "''name''"]
  have "(''Field '' @ quoted ''name'' @ '' is required'')
        \<notin> set [quoted ''name'' @ '' must be at least 3 characters'']"
    by simp
  with r v1 v2 show ?thesis by (simp add: name_schema_def)
qed

subsection \<open>Numeric fields\<close>

text \<open>
  The comparisons of the interpreter are the order of numbers: \<^verbatim>\<open>x < bound\<close> holds exactly
  when the value lies strictly below the number that the bound denotes.
\<close>

lemma float_lt_below: "float_lt x y = strictly_below x y"
  by (cases x; cases y) (auto simp: strictly_below_def)

lemma num_lt_below: "num_lt x y = strictly_below (to_float x) (to_float y)"
  by (cases x; cases y) (auto simp: float_lt_below strictly_below_def)

lemma as_num_bound: "bound_number b = map_option to_float (as_num b)"
  by (cases b) auto

lemma less_than_minimum:
  "bound_number b \<noteq> None \<Longrightarrow> less_than x b = Inr (violates_minimum (to_float x) b)"
  by (auto simp: less_than_def violates_minimum_def as_num_bound num_lt_below split: option.splits)

lemma greater_than_maximum:
  "bound_number b \<noteq> None \<Longrightarrow> greater_than x b = Inr (violates_maximum (to_float x) b)"
  by (auto simp: greater_than_def violates_maximum_def as_num_bound num_lt_below split: option.splits)

lemma check_numeric_parsed:
  assumes "coerce rt ty s = Some x"
    and "is_number (map_of fs ''minimum'')" and "is_number (map_of fs ''maximum'')"
  shows "check_numeric rt f (Leaf s) ty fs =
     Inr ((case map_of fs ''minimum'' of
             None \<Rightarrow> []
           | Some b \<Rightarrow> if violates_minimum (to_float x) b
                      then [quoted f @ '' must be at least '' @ py_str rt b] else [])
        @ (case map_of fs ''maximum'' of
             None \<Rightarrow> []
           | Some b \<Rightarrow> if violates_maximum (to_float x) b
                      then [quoted f @ '' must be at most '' @ py_str rt b] else []))"
proof -
  have lo: "(case map_of fs ''minimum'' of
               None \<Rightarrow> Inr []
             | Some bound \<Rightarrow>
                 py_bind (less_than x bound) (\<lambda>below.
                   Inr (if below then [quoted f @ '' must be at least '' @ py_str rt bound] else [])))
           = Inr (case map_of fs ''minimum'' of
             None \<Rightarrow> []
           | Some b \<Rightarrow> if violates_minimum (to_float x) b
                      then [quoted f @ '' must be at least '' @ py_str rt b] else [])"
    using assms(2) by (auto simp: is_number_def less_than_minimum split: option.splits)
  have hi: "(case map_of fs ''maximum'' of
               None \<Rightarrow> Inr []
             | Some bound \<Rightarrow>
                 py_bind (greater_than x bound) (\<lambda>above.
                   Inr (if above then [quoted f @ '' must be at most '' @ py_str rt bound] else [])))
           = Inr (case map_of fs ''maximum'' of
             None \<Rightarrow> []
           | Some b \<Rightarrow> if violates_maximum (to_float x) b
                      then [quoted f @ '' must be at most '' @ py_str rt b] else [])"
    using assms(3) by (auto simp: is_number_def greater_than_maximum split: option.splits)
  show ?thesis
    unfolding check_numeric_def form_value.case assms(1) option.case lo hi by simp
qed

text \<open>
  Claim C6: for a field of type \<^verbatim>\<open>integer\<close> or \<^verbatim>\<open>number\<close> (with numbers as bounds, where it
  has bounds) and a string value. The coercion is \<^verbatim>\<open>int\<close> of the string for \<^verbatim>\<open>integer\<close> and
  \<^verbatim>\<open>float\<close> of it for \<^verbatim>\<open>number\<close>. When it fails, the result is the one message
  \<^verbatim>\<open>must be a valid <type>\<close> and no bound is checked. When it succeeds with the value \<open>x\<close>,
  the result has the message of the minimum exactly when \<open>x\<close> lies strictly below the
  minimum, then the message of the maximum exactly when \<open>x\<close> lies strictly above the maximum,
  and nothing else: a value within the bounds gets no message.
\<close>

theorem numeric_field_messages:
  assumes "map_of field_schema ''type'' = Some (JStr field_type)"
    and "field_type = ''integer'' \<or> field_type = ''number''"
    and "is_number (map_of field_schema ''minimum'')"
    and "is_number (map_of field_schema ''maximum'')"
  shows "(field_type = ''integer'' \<and> py_int rt s = None
            \<or> field_type = ''number'' \<and> py_float rt s = None \<longrightarrow>
          validate_field_value rt field_name (Leaf s) (JObj field_schema) =
            Inr [quoted field_name @ '' must be a valid '' @ field_type])
    \<and> (\<forall>x. (field_type = ''integer'' \<and> (\<exists>i. py_int rt s = Some i \<and> x = Finite (of_int i)))
              \<or> (field_type = ''number'' \<and> py_float rt s = Some x) \<longrightarrow>
          validate_field_value rt field_name (Leaf s) (JObj field_schema) =
            Inr ((case map_of field_schema ''minimum'' of
                    None \<Rightarrow> []
                  | Some b \<Rightarrow>
                      if violates_minimum x b
                      then [quoted field_name @ '' must be at least '' @ py_str rt b] else [])
               @ (case map_of field_schema ''maximum'' of
                    None \<Rightarrow> []
                  | Some b \<Rightarrow>
                      if violates_maximum x b
                      then [quoted field_name @ '' must be at most '' @ py_str rt b] else [])))"
proof (intro conjI allI impI)
  have v: "validate_field_value rt field_name (Leaf s) (JObj field_schema)
      = check_numeric rt field_name (Leaf s) field_type field_schema"
    using assms(1,2) by auto
  {
    assume "field_type = ''integer'' \<and> py_int rt s = None
            \<or> field_type = ''number'' \<and> py_float rt s = None"
    then have "coerce rt field_type s = None" by (auto simp: coerce_def)
    then show "validate_field_value rt field_name (Leaf s) (JObj field_schema) =
            Inr [quoted field_name @ '' must be a valid '' @ field_type]"
      unfolding v by (simp add: check_numeric_def)
  }
  {
    fix x
    assume "(field_type = ''integer'' \<and> (\<exists>i. py_int rt s = Some i \<and> x = Finite (of_int i)))
              \<or> (field_type = ''number'' \<and> py_float rt s = Some x)"
    then obtain y where y: "coerce rt field_type s = Some y" "to_float y = x"
      by (auto simp: coerce_def)
    show "validate_field_value rt field_name (Leaf s) (JObj field_schema) =
            Inr ((case map_of field_schema ''minimum'' of
                    None \<Rightarrow> []
                  | Some b \<Rightarrow>
                      if violates_minimum x b
                      then [quoted field_name @ '' must be at least '' @ py_str rt b] else [])
               @ (case map_of field_schema ''maximum'' of
                    None \<Rightarrow> []
                  | Some b \<Rightarrow>
                      if violates_maximum x b
                      then [quoted field_name @ '' must be at most '' @ py_str rt b] else []))"
      unfolding v y(2)[symmetric] by (rule check_numeric_parsed[OF y(1) assms(3,4)])
  }
qed

text \<open>
  Claim C6 on the integer field with the bounds 0 and 10 and on the number field with the
  bounds 1 and 10.0: \<^verbatim>\<open>5\<close> gets no message, \<^verbatim>\<open>abc\<close> the coercion message only, \<^verbatim>\<open>15\<close> the
  message of the maximum, \<^verbatim>\<open>-1\<close> (for the number field, \<^verbatim>\<open>0\<close>) that of the minimum.
\<close>

theorem numeric_field_messages_witness:
  "map_of age_field ''type'' = Some (JStr ''integer'')
   \<and> is_number (map_of age_field ''minimum'') \<and> is_number (map_of age_field ''maximum'')
   \<and> map_of price_field ''type'' = Some (JStr ''number'')
   \<and> is_number (map_of price_field ''minimum'') \<and> is_number (map_of price_field ''maximum'')
   \<and> validate_field_value sample_runtime ''age'' (Leaf ''5'') (JObj age_field) = Inr []
   \<and> validate_field_value sample_runtime ''age'' (Leaf ''abc'') (JObj age_field)
       = Inr [quoted ''age'' @ '' must be a valid integer'']
   \<and> validate_field_value sample_runtime ''age'' (Leaf ''15'') (JObj age_field)
       = Inr [quoted ''age'' @ '' must be at most 10'']
   \<and> validate_field_value sample_runtime ''age'' (Leaf ''-1'') (JObj age_field)
       = Inr [quoted ''age'' @ '' must be at least 0'']
   \<and> validate_field_value sample_runtime ''price'' (Leaf ''5'') (JObj price_field) = Inr []
   \<and> validate_field_value sample_runtime ''price'' (Leaf ''abc'') (JObj price_field)
       = Inr [quoted ''price'' @ '' must be a valid number'']
   \<and> validate_field_value sample_runtime ''price'' (Leaf ''15'') (JObj price_field)
       = Inr [quoted ''price'' @ '' must be at most 10.0'']
   \<and> validate_field_value sample_runtime ''price'' (Leaf ''0'') (JObj price_field)
       = Inr [quoted ''price'' @ '' must be at least 1'']"
proof -
  have ta: "map_of age_field ''type'' = Some (JStr ''integer'')"
    and tp: "map_of price_field ''type'' = Some (JStr ''number'')"
    by (simp_all add: age_field_def price_field_def)
  have ba: "is_number (map_of age_field ''minimum'')" "is_number (map_of age_field ''maximum'')"
    and bp: "is_number (map_of price_field ''minimum'')" "is_number (map_of price_field ''maximum'')"
    by (simp_all add: is_number_def age_field_def price_field_def)
  have ia: "''integer'' = ''integer'' \<or> ''integer'' = ''number''"
    and ip: "''number'' = ''integer'' \<or> ''number'' = ''number''"
    by simp_all
  note age = numeric_field_messages [OF ta ia ba, of sample_runtime _ "''age''"]
  note price = numeric_field_messages [OF tp ip bp, of sample_runtime _ "''price''"]
  have ints: "py_int sample_runtime ''5'' = Some 5" "py_int sample_runtime ''abc'' = None"
    "py_int sample_runtime ''15'' = Some 15" "py_int sample_runtime ''-1'' = Some (- 1)"
    by (simp_all add: sample_runtime_def sample_int_def)
  have floats: "py_float sample_runtime ''5'' = Some (Finite 5)"
    "py_float sample_runtime ''abc'' = None"
    "py_float sample_runtime ''15'' = Some (Finite 15)"
    "py_float sample_runtime ''0'' = Some (Finite 0)"
    by (simp_all add: sample_runtime_def sample_int_def)
  have lo_age: "map_of age_field ''minimum'' = Some (JInt 0)"
    and hi_age: "map_of age_field ''maximum'' = Some (JInt 10)"
    and lo_price: "map_of price_field ''minimum'' = Some (JInt 1)"
    and hi_price: "map_of price_field ''maximum'' = Some (JFloat (Finite 10))"
    by (simp_all add: age_field_def price_field_def)
  have texts: "py_str sample_runtime (JInt 0) = ''0''" "py_str sample_runtime (JInt 10) = ''10''"
    "py_str sample_runtime (JInt 1) = ''1''"
    "py_str sample_runtime (JFloat (Finite 10)) = ''10.0''"
    by (simp_all add: show_int_def sample_runtime_def)
  have order: "\<And>x b. violates_minimum (Finite x) (JInt b) = (x < of_int b)"
    "\<And>x b. violates_maximum (Finite x) (JInt b) = (of_int b < x)"
    "\<And>x b. violates_maximum (Finite x) (JFloat (Finite b)) = (b < x)"
    by (auto simp: violates_minimum_def violates_maximum_def strictly_below_def)
  have a5: "validate_field_value sample_runtime ''age'' (Leaf ''5'') (JObj age_field) = Inr []"
    using age [of "''5''", THEN conjunct2, THEN spec, of "Finite 5"]
    by (simp add: ints lo_age hi_age order del: validate_field_value.simps py_str.simps)
  have aabc: "validate_field_value sample_runtime ''age'' (Leaf ''abc'') (JObj age_field)
       = Inr [quoted ''age'' @ '' must be a valid integer'']"
    using age [of "''abc''", THEN conjunct1] by (simp add: ints del: validate_field_value.simps)
  have a15: "validate_field_value sample_runtime ''age'' (Leaf ''15'') (JObj age_field)
       = Inr [quoted ''age'' @ '' must be at most 10'']"
    using age [of "''15''", THEN conjunct2, THEN spec, of "Finite 15"]
    by (simp add: ints lo_age hi_age order texts del: validate_field_value.simps py_str.simps)
  have am1: "validate_field_value sample_runtime ''age'' (Leaf ''-1'') (JObj age_field)
       = Inr [quoted ''age'' @ '' must be at least 0'']"
    using age [of "''-1''", THEN conjunct2, THEN spec, of "Finite (- 1)"]
    by (simp add: ints lo_age hi_age order texts del: validate_field_value.simps py_str.simps)
  have p5: "validate_field_value sample_runtime ''price'' (Leaf ''5'') (JObj price_field) = Inr []"
    using price [of "''5''", THEN conjunct2, THEN spec, of "Finite 5"]
    by (simp add: floats lo_price hi_price order del: validate_field_value.simps py_str.simps)
  have pabc: "validate_field_value sample_runtime ''price'' (Leaf ''abc'') (JObj price_field)
       = Inr [quoted ''price'' @ '' must be a valid number'']"
    using price [of "''abc''", THEN conjunct1] by (simp add: floats del: validate_field_value.simps)
  have p15: "validate_field_value sample_runtime ''price'' (Leaf ''15'') (JObj price_field)
       = Inr [quoted ''price'' @ '' must be at most 10.0'']"
    using price [of "''15''", THEN conjunct2, THEN spec, of "Finite 15"]
    by (simp add: floats lo_price hi_price order texts del: validate_field_value.simps py_str.simps)
  have p0: "validate_field_value sample_runtime ''price'' (Leaf ''0'') (JObj price_field)
       = Inr [quoted ''price'' @ '' must be at least 1'']"
    using price [of "''0''", THEN conjunct2, THEN spec, of "Finite 0"]
    by (simp add: floats lo_price hi_price order texts del: validate_field_value.simps py_str.simps)
  from ta tp ba bp a5 aabc a15 am1 p5 pabc p15 p0 show ?thesis
    by (intro conjI)
qed

subsection \<open>The pattern check\<close>

inductive_simps matches_Lit: "matches (Lit c) s i j"
inductive_simps matches_Epsilon: "matches Epsilon s i j"
inductive_simps matches_Seq: "matches (Seq r1 r2) s i j"


lemma matches_lits:
  "matches (lits p) s i j \<longleftrightarrow>
     j = i + length p \<and> i + length p \<le> length s \<and> take (length p) (drop i s) = p"
proof (induction p arbitrary: i)
  case Nil
  show ?case by (auto simp: matches_Epsilon)
next
  case (Cons c cs)
  have "take (Suc (length cs)) (drop i s) = c # cs \<longleftrightarrow>
        i < length s \<and> s ! i = c \<and> take (length cs) (drop (Suc i) s) = cs"
  proof (cases "i < length s")
    case True
    then have "drop i s = s ! i # drop (Suc i) s" by (simp add: Cons_nth_drop_Suc)
    then show ?thesis using True by simp
  next
    case False
    then show ?thesis by simp
  qed
  then show ?case
    by (auto simp: matches_Seq matches_Lit Cons.IH)
qed




text \<open>
  The condition \<open>engine_for\<close> tells \<^verbatim>\<open>re.match\<close> from its neighbours: an engine that wants
  the whole subject matched, and one that looks for a match anywhere in the subject, do
  not satisfy it for the pattern \<^verbatim>\<open>ab\<close>.
\<close>

lemma whole_match_is_not_re_match:
  "\<not> engine_for (\<lambda>s. if s = ''ab'' then Some 2 else None) (lits ''ab'')"
proof
  assume "engine_for (\<lambda>s. if s = ''ab'' then Some 2 else None) (lits ''ab'')"
  then have "case (if ''abc'' = ''ab'' then Some (2::nat) else None) of
               None \<Rightarrow> \<not> matches_at_start (lits ''ab'') ''abc''
             | Some e \<Rightarrow> matches (lits ''ab'') ''abc'' 0 e"
    unfolding engine_for_def by (rule spec)
  then have "\<not> matches_at_start (lits ''ab'') ''abc''" by simp
  moreover have "matches (lits ''ab'') ''abc'' 0 (0 + length ''ab'')"
    unfolding matches_lits by simp
  ultimately show False
    unfolding matches_at_start_def by blast
qed

lemma search_is_not_re_match:
  "\<not> engine_for (\<lambda>s. if contains_str ''ab'' s then Some (length s) else None) (lits ''ab'')"
proof
  assume "engine_for (\<lambda>s. if contains_str ''ab'' s then Some (length s) else None) (lits ''ab'')"
  then have "case (if contains_str ''ab'' ''xab'' then Some (length ''xab'') else None) of
               None \<Rightarrow> \<not> matches_at_start (lits ''ab'') ''xab''
             | Some e \<Rightarrow> matches (lits ''ab'') ''xab'' 0 e"
    unfolding engine_for_def by (rule spec)
  moreover have "contains_str ''ab'' ''xab''" by (simp add: numeral_2_eq_2)
  ultimately have "matches (lits ''ab'') ''xab'' 0 (length ''xab'')" by simp
  then show False
    unfolding matches_lits by simp
qed



subsection \<open>Values of unexpected shape\<close>

text \<open>
  Claim C4 says that the validation never raises, whatever the shape of the submitted
  values. The form field \<^verbatim>\<open>age.years = 5\<close> is assembled into a dictionary under \<^verbatim>\<open>age\<close>; for
  the integer field \<^verbatim>\<open>age\<close> the source calls \<^verbatim>\<open>int\<close> on that dictionary, which raises
  \<^verbatim>\<open>TypeError\<close>, and the \<^verbatim>\<open>except ValueError\<close> clause does not catch it.
\<close>

theorem nested_value_for_integer_raises:
  "parse_nested_form_data [(''age.years'', ''5'')] = Inr [(''age'', Node [(''years'', Leaf ''5'')])]
   \<and> validate_against_schema (Suc (Suc (Suc (Suc n)))) rt
        [(''age'', Node [(''years'', Leaf ''5'')])] age_schema = Inl TypeError"
  by (simp add: parse_nested_form_data_def validate_against_schema_def age_schema_def
        age_field_def validate_item_def check_numeric_def)

section \<open>Properties of the schema loading\<close>

lemma validate_fields_no_properties:
  "validate_fields n rt (JObj []) resolved data = Inr []"
  by (induction data) (auto simp: validate_item_def)

lemma validate_empty_schema:
  "validate_against_schema (Suc n) rt data (JObj []) = Inr []"
  by (simp add: validate_against_schema_def validate_fields_no_properties)

lemma load_schema_uncaught:
  "json_load bytes = OtherError err \<Longrightarrow> load_schema json_load (Contents bytes) = Inl err"
  by (simp add: load_schema_def)

text \<open>
  Claim C9, as stated: a schema file that is absent makes the loading fail, and no request
  is served with an empty document in its place. It does not fail: \<^verbatim>\<open>load_schema\<close> prints
  a line and returns the empty dictionary, and a submission is validated against it
  without a message.
\<close>

theorem missing_schema_is_not_fatal:
  "load_schema (\<lambda>bytes. JSONDecodeError ''Expecting value'') NotFound
     = Inr (JObj [], [''ERROR: schema.json file not found!''])
   \<and> validate_against_schema (Suc 0) sample_runtime [(''name'', Leaf ''x'')] (JObj []) = Inr []"
  by (simp add: load_schema_def validate_empty_schema)

text \<open>
  Claim C9, amended: when the schema file is absent, or \<^verbatim>\<open>json.load\<close> rejects its contents
  with \<^verbatim>\<open>JSONDecodeError\<close>, \<^verbatim>\<open>load_schema\<close> prints one line that begins with \<^verbatim>\<open>ERROR:\<close> and
  returns the empty document; validation against the empty document returns no message
  for any submission.
\<close>

theorem schema_load_failure_gives_empty_document:
  assumes "file = NotFound \<or> (\<exists>bytes e. file = Contents bytes \<and> json_load bytes = JSONDecodeError e)"
  shows "\<exists>diagnostic. load_schema json_load file = Inr (JObj [], [diagnostic])
           \<and> take 6 diagnostic = ''ERROR:''
           \<and> (\<forall>n rt data. validate_against_schema (Suc n) rt data (JObj []) = Inr [])"
  using assms by (auto simp: load_schema_def validate_empty_schema)

text \<open>
  The amended claim C9 on a file whose contents are an opening brace, which \<^verbatim>\<open>json.load\<close>
  rejects with \<^verbatim>\<open>JSONDecodeError\<close>.
\<close>

theorem schema_load_failure_gives_empty_document_witness:
  "(Contents ''{'' = NotFound
      \<or> (\<exists>bytes e. Contents ''{'' = Contents bytes
            \<and> (\<lambda>bytes. JSONDecodeError ''Expecting property name'') bytes = JSONDecodeError e))
   \<and> (\<exists>diagnostic.
         load_schema (\<lambda>bytes. JSONDecodeError ''Expecting property name'') (Contents ''{'')
           = Inr (JObj [], [diagnostic])
         \<and> take 6 diagnostic = ''ERROR:''
         \<and> (\<forall>n rt data. validate_against_schema (Suc n) rt data (JObj []) = Inr []))
   \<and> load_schema (\<lambda>bytes. JSONDecodeError ''Expecting property name'') (Contents ''{'')
       = Inr (JObj [], [''ERROR: Invalid JSON in schema.json: Expecting property name''])"
proof -
  have h: "Contents ''{'' = NotFound
      \<or> (\<exists>bytes e. Contents ''{'' = Contents bytes
            \<and> (\<lambda>bytes. JSONDecodeError ''Expecting property name'') bytes = JSONDecodeError e)"
    by simp
  have l: "load_schema (\<lambda>bytes. JSONDecodeError ''Expecting property name'') (Contents ''{'')
       = Inr (JObj [], [''ERROR: Invalid JSON in schema.json: Expecting property name''])"
    by (simp add: load_schema_def)
  from schema_load_failure_gives_empty_document [OF h] h l show ?thesis
    by blast
qed


end
